theory Spec2Isabelle
  imports Main "HOL-Library.Sublist"
begin

section \<open>inscope: scope matching of domains and URLs (main.go)\<close>

text \<open>
  The program reads a scope file of include and exclude patterns, compiles every line to
  a regular expression, and classifies each input line as in scope or out of scope.
  This theory embeds the functions of \<^verbatim>\<open>main.go\<close> that carry the matching engine:
  \<^verbatim>\<open>convertWildcardToRegex\<close>, \<^verbatim>\<open>normalizeDomain\<close>, \<^verbatim>\<open>isURL\<close>, \<^verbatim>\<open>getHostname\<close>,
  \<^verbatim>\<open>newScopeChecker\<close> and \<^verbatim>\<open>inScope\<close>.

  Go strings are byte sequences, and so are HOL strings. The functions of Go's
  \<^verbatim>\<open>strings\<close> package that the program calls are written out below on bytes.
\<close>

subsection \<open>Package strings\<close>

definition HasPrefix :: "string \<Rightarrow> string \<Rightarrow> bool" where
  "HasPrefix s p = (take (length p) s = p)"

definition HasSuffix :: "string \<Rightarrow> string \<Rightarrow> bool" where
  "HasSuffix s x = (length x \<le> length s \<and> drop (length s - length x) s = x)"

definition TrimSuffix :: "string \<Rightarrow> string \<Rightarrow> string" where
  "TrimSuffix s x = (if HasSuffix s x then take (length s - length x) s else s)"

definition Contains :: "string \<Rightarrow> string \<Rightarrow> bool" where
  "Contains s sub = list_ex (\<lambda>i. HasPrefix (drop i s) sub) [0..<Suc (length s)]"

definition ContainsAny :: "string \<Rightarrow> string \<Rightarrow> bool" where
  "ContainsAny s chars = list_ex (\<lambda>c. c \<in> set chars) s"

definition LastIndex :: "string \<Rightarrow> string \<Rightarrow> int" where
  \<comment> \<open>The index of the last occurrence of \<open>sub\<close> in \<open>s\<close>, or \<open>-1\<close>.\<close>
  "LastIndex s sub =
     (case filter (\<lambda>i. HasPrefix (drop i s) sub) (rev [0..<Suc (length s)]) of
        [] \<Rightarrow> - 1
      | i # _ \<Rightarrow> int i)"

fun ReplaceAll :: "string \<Rightarrow> string \<Rightarrow> string \<Rightarrow> string" where
  "ReplaceAll [] old new = (if old = [] then new else [])"
| "ReplaceAll (c # cs) old new =
     (if old = [] then new @ c # ReplaceAll cs old new
      else if HasPrefix (c # cs) old
        then new @ ReplaceAll (drop (length old) (c # cs)) old new
      else c # ReplaceAll cs old new)"

text \<open>
  \<^verbatim>\<open>TrimSpace\<close> removes all leading and trailing white space, as Unicode defines it
  (\<^verbatim>\<open>unicode.IsSpace\<close>): the six ASCII spaces, U+0085, U+00A0, U+1680, U+2000 to U+200A,
  U+2028, U+2029, U+202F, U+205F and U+3000. Go reads the characters of a string in
  UTF-8; a string starts (ends) with a white-space character exactly when it starts
  (ends) with the UTF-8 bytes of one, so the trimming is written on bytes.
\<close>

definition whiteSpace :: "string list" where
  "whiteSpace =
     [[CHR 0x09], [CHR 0x0A], [CHR 0x0B], [CHR 0x0C], [CHR 0x0D], [CHR 0x20],
      [CHR 0xC2, CHR 0x85], [CHR 0xC2, CHR 0xA0],
      [CHR 0xE1, CHR 0x9A, CHR 0x80],
      [CHR 0xE2, CHR 0x80, CHR 0x80], [CHR 0xE2, CHR 0x80, CHR 0x81],
      [CHR 0xE2, CHR 0x80, CHR 0x82], [CHR 0xE2, CHR 0x80, CHR 0x83],
      [CHR 0xE2, CHR 0x80, CHR 0x84], [CHR 0xE2, CHR 0x80, CHR 0x85],
      [CHR 0xE2, CHR 0x80, CHR 0x86], [CHR 0xE2, CHR 0x80, CHR 0x87],
      [CHR 0xE2, CHR 0x80, CHR 0x88], [CHR 0xE2, CHR 0x80, CHR 0x89],
      [CHR 0xE2, CHR 0x80, CHR 0x8A],
      [CHR 0xE2, CHR 0x80, CHR 0xA8], [CHR 0xE2, CHR 0x80, CHR 0xA9],
      [CHR 0xE2, CHR 0x80, CHR 0xAF],
      [CHR 0xE2, CHR 0x81, CHR 0x9F],
      [CHR 0xE3, CHR 0x80, CHR 0x80]]"

lemma whiteSpace_nonempty: "sp \<in> set whiteSpace \<Longrightarrow> sp \<noteq> []"
  by (auto simp: whiteSpace_def)

lemma HasPrefix_length: "HasPrefix s p \<Longrightarrow> length p \<le> length s"
proof -
  assume "HasPrefix s p"
  then have "length (take (length p) s) = length p" by (simp add: HasPrefix_def)
  then show ?thesis by simp
qed

function TrimLeftSpace :: "string \<Rightarrow> string" where
  "TrimLeftSpace s =
     (case find (HasPrefix s) whiteSpace of
        None \<Rightarrow> s
      | Some sp \<Rightarrow> TrimLeftSpace (drop (length sp) s))"
  by pat_completeness auto
termination
proof (relation "measure length")
  show "wf (measure length)" by simp
next
  fix s sp assume "find (HasPrefix s) whiteSpace = Some sp"
  then have "sp \<in> set whiteSpace" "HasPrefix s sp"
    unfolding find_Some_iff by (metis nth_mem)+
  then have "sp \<noteq> []" "length sp \<le> length s"
    by (simp_all add: whiteSpace_nonempty HasPrefix_length)
  then show "(drop (length sp) s, s) \<in> measure length"
    by (cases sp) auto
qed

function TrimRightSpace :: "string \<Rightarrow> string" where
  "TrimRightSpace s =
     (case find (HasSuffix s) whiteSpace of
        None \<Rightarrow> s
      | Some sp \<Rightarrow> TrimRightSpace (take (length s - length sp) s))"
  by pat_completeness auto
termination
proof (relation "measure length")
  show "wf (measure length)" by simp
next
  fix s sp assume "find (HasSuffix s) whiteSpace = Some sp"
  then have "sp \<in> set whiteSpace" "HasSuffix s sp"
    unfolding find_Some_iff by (metis nth_mem)+
  then have "sp \<noteq> []" "length sp \<le> length s"
    by (simp_all add: whiteSpace_nonempty HasSuffix_def)
  then show "(take (length s - length sp) s, s) \<in> measure length"
    by (cases sp) auto
qed

definition TrimSpace :: "string \<Rightarrow> string" where
  "TrimSpace s = TrimRightSpace (TrimLeftSpace s)"

declare TrimLeftSpace.simps [simp del] TrimRightSpace.simps [simp del]

definition isASCII :: "string \<Rightarrow> bool" where
  "isASCII s = list_all (\<lambda>c. (of_char c :: nat) < 128) s"

definition lowerByte :: "char \<Rightarrow> char" where
  "lowerByte c =
     (let n = (of_char c :: nat) in if 65 \<le> n \<and> n \<le> 90 then char_of (n + 32) else c)"

subsection \<open>The library interface: Unicode tables, packages regexp and net/url\<close>

text \<open>
  The program calls \<^verbatim>\<open>strings.ToLower\<close>, \<^verbatim>\<open>regexp.Compile\<close>, \<^verbatim>\<open>(*Regexp).MatchString\<close>,
  \<^verbatim>\<open>(*Regexp).String\<close>, \<^verbatim>\<open>url.Parse\<close> and \<^verbatim>\<open>(*URL).Hostname\<close>. They are Go's, not the
  program's, so the program is embedded over an arbitrary library \<open>L\<close>:
  \<^item> \<open>regexp_Compile\<close>, a compiler of pattern texts to expressions of some type \<open>'re\<close>;
  \<^item> \<open>regexp_Matches m u w v\<close>, which says that the expression \<open>m\<close> has a match that is the
    part \<open>w\<close> of the subject \<open>u @ w @ v\<close>;
  \<^item> \<open>url_Parse\<close>, a URL parser to some type \<open>'u\<close>, and \<open>url_Hostname\<close>, the hostname of a
    parsed URL;
  \<^item> \<open>unicode_ToLower\<close>, the lower-casing of a string by Go's Unicode tables
    (\<^verbatim>\<open>strings.Map(unicode.ToLower, s)\<close>).
  A library error is its message. Two things that Go documents are built in: \<^verbatim>\<open>String\<close>
  returns the source text the expression was compiled from, and \<^verbatim>\<open>MatchString\<close> reports
  whether the string contains any match of the expression.
\<close>

record ('re, 'u) stdlib =
  regexp_Compile :: "string \<Rightarrow> string + 're"
  regexp_Matches :: "'re \<Rightarrow> string \<Rightarrow> string \<Rightarrow> string \<Rightarrow> bool"
  url_Parse :: "string \<Rightarrow> string + 'u"
  url_Hostname :: "'u \<Rightarrow> string"
  unicode_ToLower :: "string \<Rightarrow> string"

text \<open>
  \<^verbatim>\<open>strings.ToLower\<close> maps the letters \<^verbatim>\<open>A\<close> to \<^verbatim>\<open>Z\<close> of a string of ASCII bytes byte by
  byte; a string with a byte beyond ASCII goes through the Unicode tables.
\<close>

definition ToLower :: "('re, 'u) stdlib \<Rightarrow> string \<Rightarrow> string" where
  "ToLower L s = (if isASCII s then map lowerByte s else unicode_ToLower L s)"

record 're Regexp =
  expr :: string
  prog :: 're

definition Compile :: "('re, 'u) stdlib \<Rightarrow> string \<Rightarrow> string + 're Regexp" where
  "Compile L pattern =
     (case regexp_Compile L pattern of
        Inl err \<Rightarrow> Inl err
      | Inr m \<Rightarrow> Inr \<lparr>expr = pattern, prog = m\<rparr>)"

definition String :: "'re Regexp \<Rightarrow> string" where
  "String re = expr re"

definition splits :: "string \<Rightarrow> (string \<times> string \<times> string) list" where
  \<comment> \<open>Every way to write \<open>s\<close> as \<open>u @ w @ v\<close>.\<close>
  "splits s =
     concat (map (\<lambda>i. map (\<lambda>j. (take i s, take (j - i) (drop i s), drop j s))
                          [i..<Suc (length s)])
                 [0..<Suc (length s)])"

definition MatchString :: "('re, 'u) stdlib \<Rightarrow> 're Regexp \<Rightarrow> string \<Rightarrow> bool" where
  "MatchString L re s = list_ex (\<lambda>(u, w, v). regexp_Matches L (prog re) u w v) (splits s)"

subsection \<open>The pure functions of main.go\<close>

definition normalizeDomain :: "('re, 'u) stdlib \<Rightarrow> string \<Rightarrow> string" where
  "normalizeDomain L domain0 =
     (let domain = ToLower L domain0;
          domain = TrimSuffix domain ''.'';
          idx = LastIndex domain '':''
      in if idx \<noteq> - 1
         then (if \<not> Contains (take (nat idx) domain) '':'' \<and> \<not> HasPrefix domain ''[''
               then take (nat idx) domain
               else domain)
         else domain)"

definition regexMeta :: string where
  \<comment> \<open>The characters \<^verbatim>\<open>^$[]{}()+?|\<close> and the backslash.\<close>
  "regexMeta = ''^$[]{}()+?|'' @ [CHR 0x5C]"

definition convertWildcardToRegex :: "string \<Rightarrow> string" where
  "convertWildcardToRegex pattern0 =
     (if ContainsAny pattern0 regexMeta then pattern0
      else
        let pattern = ReplaceAll pattern0 ''.'' [CHR 0x5C, CHR ''.''];
            pattern = ReplaceAll pattern ''*'' ''.*'';
            pattern = (if \<not> HasPrefix pattern ''^'' then ''^'' @ pattern else pattern);
            pattern = (if \<not> HasSuffix pattern ''$'' then pattern @ ''$'' else pattern)
        in pattern)"

definition isURL :: "('re, 'u) stdlib \<Rightarrow> string \<Rightarrow> bool" where
  "isURL L s0 =
     (let s = TrimSpace (ToLower L s0)
      in Contains s ''://'' \<or>
         HasPrefix s ''http:'' \<or>
         HasPrefix s ''https:'' \<or>
         HasPrefix s ''ftp:'' \<or>
         HasPrefix s ''ws:'' \<or>
         HasPrefix s ''wss:'' \<or>
         Contains s ''/'' \<or>
         Contains s ''?'' \<or>
         Contains s ''#'')"

subsection \<open>The scope checker\<close>

record Config =
  scopeFile :: string
  verbose :: bool
  invert :: bool
  showStats :: bool
  strict :: bool

text \<open>
  The counters are Go \<^verbatim>\<open>int\<close>s. They count input lines, so they stay far below the
  wrap-around of a machine integer and are modelled as unbounded integers. The mutex
  \<^verbatim>\<open>mu\<close> is not modelled: one call runs at a time.
\<close>

record stats =
  stats_total :: int
  stats_inScope :: int
  stats_outScope :: int

record 're scopeChecker =
  patterns :: "'re Regexp list"
  antipatterns :: "'re Regexp list"
  stats :: stats

datatype error =
    InvalidPattern nat string string  \<comment> \<open>line number, line, the compiler's message\<close>
  | ReadError string                  \<comment> \<open>error reading scope file\<close>
  | NoScopePatterns                   \<comment> \<open>no scope patterns found\<close>
  | ParseError string                 \<comment> \<open>the error of \<^verbatim>\<open>url.Parse\<close>\<close>
  | NoHostname string                 \<comment> \<open>no hostname in URL\<close>

definition getHostname :: "('re, 'u) stdlib \<Rightarrow> string \<Rightarrow> error + string" where
  "getHostname L s0 =
     (let s = (if \<not> Contains s0 ''://'' then ''http://'' @ s0 else s0)
      in case url_Parse L s of
           Inl err \<Rightarrow> Inl (ParseError err)
         | Inr u \<Rightarrow>
             let hostname = url_Hostname L u
             in if hostname = [] then Inl (NoHostname s) else Inr hostname)"

text \<open>
  A \<^verbatim>\<open>for ... range\<close> loop that stops at the first pattern whose matcher accepts. It
  returns that pattern, if any, and the patterns on which the matcher was called, in
  order: the loop's calls of \<^verbatim>\<open>MatchString\<close>.
\<close>

fun firstMatch :: "('a \<Rightarrow> bool) \<Rightarrow> 'a list \<Rightarrow> 'a option \<times> 'a list" where
  "firstMatch m [] = (None, [])"
| "firstMatch m (p # ps) =
     (if m p then (Some p, [p])
      else (case firstMatch m ps of (r, evaluated) \<Rightarrow> (r, p # evaluated)))"

text \<open>
  What a call of \<^verbatim>\<open>inScope\<close> leaves behind: the two values it returns, the checker
  with its counters updated, and the patterns the include loop and the exclude loop
  called \<^verbatim>\<open>MatchString\<close> on.
\<close>

record 're verdict =
  ok :: bool
  matchedPattern :: string
  checker :: "'re scopeChecker"
  includesTried :: "'re Regexp list"
  excludesTried :: "'re Regexp list"

definition bumpTotal :: "'re scopeChecker \<Rightarrow> 're scopeChecker" where
  "bumpTotal s = s\<lparr>stats := (stats s)\<lparr>stats_total := stats_total (stats s) + 1\<rparr>\<rparr>"

definition bumpInScope :: "'re scopeChecker \<Rightarrow> 're scopeChecker" where
  "bumpInScope s = s\<lparr>stats := (stats s)\<lparr>stats_inScope := stats_inScope (stats s) + 1\<rparr>\<rparr>"

definition bumpOutScope :: "'re scopeChecker \<Rightarrow> 're scopeChecker" where
  "bumpOutScope s = s\<lparr>stats := (stats s)\<lparr>stats_outScope := stats_outScope (stats s) + 1\<rparr>\<rparr>"

definition inScope ::
  "('re, 'u) stdlib \<Rightarrow> Config \<Rightarrow> 're scopeChecker \<Rightarrow> string \<Rightarrow> 're verdict" where
  "inScope L config s0 input =
     (let s = bumpTotal s0;
          resolved =
            (if isURL L input then
               (case getHostname L input of
                  Inl err \<Rightarrow> (if strict config then None else Some input)
                | Inr hostname \<Rightarrow> Some hostname)
             else Some input)
      in case resolved of
           None \<Rightarrow>
             \<lparr>ok = False, matchedPattern = [], checker = s,
              includesTried = [], excludesTried = []\<rparr>
         | Some domain0 \<Rightarrow>
             let domain = normalizeDomain L domain0;
                 (included, itried) = firstMatch (\<lambda>p. MatchString L p domain) (patterns s);
                 (excluded, etried) = firstMatch (\<lambda>p. MatchString L p domain) (antipatterns s)
             in case excluded of
                  Some p \<Rightarrow>
                    \<lparr>ok = False, matchedPattern = ''!'' @ String p, checker = bumpOutScope s,
                     includesTried = itried, excludesTried = etried\<rparr>
                | None \<Rightarrow>
                    (case included of
                       Some p \<Rightarrow>
                         \<lparr>ok = True, matchedPattern = String p, checker = bumpInScope s,
                          includesTried = itried, excludesTried = etried\<rparr>
                     | None \<Rightarrow>
                         \<lparr>ok = False, matchedPattern = [], checker = bumpOutScope s,
                          includesTried = itried, excludesTried = etried\<rparr>))"

text \<open>
  The reader of the scope file, as \<^verbatim>\<open>bufio.Scanner\<close> presents it: the lines it yields
  before it stops, and the error it stopped on, if any.
\<close>

record reader =
  rd_lines :: "string list"
  rd_err :: "string option"

fun scanLines ::
  "('re, 'u) stdlib \<Rightarrow> nat \<Rightarrow> string list \<Rightarrow> 're scopeChecker \<Rightarrow> error + 're scopeChecker" where
  "scanLines L lineNum0 [] s = Inr s"
| "scanLines L lineNum0 (text # rest) s =
     (let lineNum = lineNum0 + 1;
          line = TrimSpace text
      in if line = [] \<or> HasPrefix line ''#'' then scanLines L lineNum rest s
         else
           let isAnti = HasPrefix line ''!'';
               line = (if isAnti then TrimSpace (drop 1 line) else line);
               pattern = convertWildcardToRegex line
           in case Compile L pattern of
                Inl err \<Rightarrow> Inl (InvalidPattern lineNum line err)
              | Inr re \<Rightarrow>
                  if isAnti
                  then scanLines L lineNum rest (s\<lparr>antipatterns := antipatterns s @ [re]\<rparr>)
                  else scanLines L lineNum rest (s\<lparr>patterns := patterns s @ [re]\<rparr>))"

definition newScopeChecker :: "('re, 'u) stdlib \<Rightarrow> reader \<Rightarrow> error + 're scopeChecker" where
  "newScopeChecker L r =
     (case scanLines L 0 (rd_lines r)
             \<lparr>patterns = [], antipatterns = [],
              stats = \<lparr>stats_total = 0, stats_inScope = 0, stats_outScope = 0\<rparr>\<rparr> of
        Inl err \<Rightarrow> Inl err
      | Inr s \<Rightarrow>
          (case rd_err r of
             Some err \<Rightarrow> Inl (ReadError err)
           | None \<Rightarrow> if length (patterns s) = 0 then Inl NoScopePatterns else Inr s))"

subsection \<open>UTF-8\<close>

text \<open>
  \<open>utf8Len s\<close> is the number of bytes of the UTF-8 character at the head of \<open>s\<close>, or \<open>0\<close>
  when \<open>s\<close> is empty or does not start with one (Go then reads one byte as the
  replacement character U+FFFD). The ranges are those of \<^verbatim>\<open>utf8.DecodeRuneInString\<close>:
  no overlong forms, no surrogates, nothing above U+10FFFF.
\<close>

definition isCont :: "char \<Rightarrow> bool" where
  "isCont c = (128 \<le> (of_char c :: nat) \<and> (of_char c :: nat) \<le> 191)"

fun utf8Len :: "string \<Rightarrow> nat" where
  "utf8Len [] = 0"
| "utf8Len (c # cs) =
     (let n = (of_char c :: nat)
      in if n < 128 then 1
         else if 194 \<le> n \<and> n \<le> 223 then
           (case cs of
              c1 # _ \<Rightarrow> if isCont c1 then 2 else 0
            | _ \<Rightarrow> 0)
         else if 224 \<le> n \<and> n \<le> 239 then
           (case cs of
              c1 # c2 # _ \<Rightarrow>
                if (if n = 224 then 160 else 128) \<le> (of_char c1 :: nat)
                   \<and> (of_char c1 :: nat) \<le> (if n = 237 then 159 else 191)
                   \<and> isCont c2
                then 3 else 0
            | _ \<Rightarrow> 0)
         else if 240 \<le> n \<and> n \<le> 244 then
           (case cs of
              c1 # c2 # c3 # _ \<Rightarrow>
                if (if n = 240 then 144 else 128) \<le> (of_char c1 :: nat)
                   \<and> (of_char c1 :: nat) \<le> (if n = 244 then 143 else 191)
                   \<and> isCont c2 \<and> isCont c3
                then 4 else 0
            | _ \<Rightarrow> 0)
         else 0)"

fun validUTF8 :: "string \<Rightarrow> bool" where
  "validUTF8 [] = True"
| "validUTF8 (c # cs) =
     (if utf8Len (c # cs) = 0 then False
      else validUTF8 (drop (utf8Len (c # cs)) (c # cs)))"

subsection \<open>A model of package regexp on a fragment of its syntax\<close>

text \<open>
  The examples below need a concrete library. This is a model of Go's \<^verbatim>\<open>regexp\<close> on the
  patterns built from literal characters, a backslash before an ASCII character that is
  no letter or digit, \<^verbatim>\<open>.*\<close>, one postfix \<^verbatim>\<open>*\<close>, \<^verbatim>\<open>+\<close> or \<^verbatim>\<open>?\<close> after an ASCII
  literal, \<^verbatim>\<open>^\<close> as the first and \<^verbatim>\<open>$\<close> as the last character. Every translation of a
  wildcard line is such a pattern. As in Go, a pattern that is not valid UTF-8 does not
  compile, \<^verbatim>\<open>.\<close> matches any character but a line feed, \<^verbatim>\<open>^\<close> and \<^verbatim>\<open>$\<close> match at the
  two ends of the subject only. The patterns of the fragment match the same subjects
  byte by byte as they do character by character, so the model works on bytes; a match
  is told by the bytes before it, its own bytes and the bytes after it. Every other
  pattern (a lone \<^verbatim>\<open>.\<close>, classes, groups, alternation, counted or lazy repetition,
  letter escapes, inner anchors) is outside the fragment, and the model does not compile
  it, whether Go does or not.
\<close>

datatype rexp =
    Zero
  | One
  | Lit char
  | Dot
  | Alt rexp rexp
  | Seq rexp rexp
  | Star rexp

inductive_set star :: "string set \<Rightarrow> string set" for A :: "string set" where
  star_nil: "[] \<in> star A"
| star_app: "u \<in> A \<Longrightarrow> v \<in> star A \<Longrightarrow> u @ v \<in> star A"

primrec lang :: "rexp \<Rightarrow> string set" where
  "lang Zero = {}"
| "lang One = {[]}"
| "lang (Lit c) = {[c]}"
| "lang Dot = {[c] | c. c \<noteq> CHR 0x0A}"
| "lang (Alt r s) = lang r \<union> lang s"
| "lang (Seq r s) = {u @ v | u v. u \<in> lang r \<and> v \<in> lang s}"
| "lang (Star r) = star (lang r)"

primrec nullable :: "rexp \<Rightarrow> bool" where
  "nullable Zero = False"
| "nullable One = True"
| "nullable (Lit c) = False"
| "nullable Dot = False"
| "nullable (Alt r s) = (nullable r \<or> nullable s)"
| "nullable (Seq r s) = (nullable r \<and> nullable s)"
| "nullable (Star r) = True"

fun alt :: "rexp \<Rightarrow> rexp \<Rightarrow> rexp" where
  "alt Zero s = s"
| "alt r Zero = r"
| "alt r s = Alt r s"

fun seq :: "rexp \<Rightarrow> rexp \<Rightarrow> rexp" where
  "seq Zero s = Zero"
| "seq r Zero = Zero"
| "seq One s = s"
| "seq r s = Seq r s"

primrec deriv :: "char \<Rightarrow> rexp \<Rightarrow> rexp" where
  "deriv a Zero = Zero"
| "deriv a One = Zero"
| "deriv a (Lit c) = (if a = c then One else Zero)"
| "deriv a Dot = (if a \<noteq> CHR 0x0A then One else Zero)"
| "deriv a (Alt r s) = alt (deriv a r) (deriv a s)"
| "deriv a (Seq r s) =
     (if nullable r then alt (seq (deriv a r) s) (deriv a s) else seq (deriv a r) s)"
| "deriv a (Star r) = seq (deriv a r) (Star r)"

primrec accepts :: "rexp \<Rightarrow> string \<Rightarrow> bool" where
  "accepts r [] = nullable r"
| "accepts r (c # cs) = accepts (deriv c r) cs"

datatype tok = TLit char | TDot | TStar | TPlus | TQuest | TBol | TEol

definition isAlnum :: "char \<Rightarrow> bool" where
  "isAlnum c =
     (let n = (of_char c :: nat)
      in (48 \<le> n \<and> n \<le> 57) \<or> (65 \<le> n \<and> n \<le> 90) \<or> (97 \<le> n \<and> n \<le> 122))"

fun lexRe :: "string \<Rightarrow> tok list option" where
  "lexRe [] = Some []"
| "lexRe (c # cs) =
     (if c = CHR 0x5C then
        (case cs of
           [] \<Rightarrow> None
         | e # r \<Rightarrow>
             if (of_char e :: nat) < 128 \<and> \<not> isAlnum e
             then map_option ((#) (TLit e)) (lexRe r)
             else None)
      else if c = CHR ''.'' then map_option ((#) TDot) (lexRe cs)
      else if c = CHR ''*'' then map_option ((#) TStar) (lexRe cs)
      else if c = CHR ''+'' then map_option ((#) TPlus) (lexRe cs)
      else if c = CHR ''?'' then map_option ((#) TQuest) (lexRe cs)
      else if c = CHR ''^'' then map_option ((#) TBol) (lexRe cs)
      else if c = CHR ''$'' then map_option ((#) TEol) (lexRe cs)
      else if c \<in> set ''[]{}()|'' then None
      else if 128 \<le> (of_char c :: nat)
              \<and> (case cs of [] \<Rightarrow> False | d # _ \<Rightarrow> d \<in> set ''*+?'') then None
      else map_option ((#) (TLit c)) (lexRe cs))"

fun atomOf :: "tok \<Rightarrow> rexp option" where
  "atomOf (TLit c) = Some (Lit c)"
| "atomOf TDot = Some Dot"
| "atomOf t = None"

fun isRep :: "tok \<Rightarrow> bool" where
  "isRep TStar = True"
| "isRep TPlus = True"
| "isRep TQuest = True"
| "isRep t = False"

fun applyRep :: "tok \<Rightarrow> rexp \<Rightarrow> rexp" where
  "applyRep TStar a = Star a"
| "applyRep TPlus a = Seq a (Star a)"
| "applyRep TQuest a = Alt a One"
| "applyRep t a = a"

fun build :: "tok list \<Rightarrow> rexp option" where
  "build [] = Some One"
| "build (t # ts) =
     (case atomOf t of
        None \<Rightarrow> None
      | Some a \<Rightarrow>
          (case ts of
             [] \<Rightarrow> (if t = TDot then None else Some (Seq a One))
           | u # ts' \<Rightarrow>
               if isRep u then
                 (if (t = TDot \<and> u \<noteq> TStar)
                     \<or> (case ts' of [] \<Rightarrow> False | v # _ \<Rightarrow> isRep v) then None
                  else map_option (Seq (applyRep u a)) (build ts'))
               else if t = TDot then None
               else map_option (Seq a) (build ts)))"

record goRegexp =
  anchoredStart :: bool
  body :: rexp
  anchoredEnd :: bool

definition frag_Compile :: "string \<Rightarrow> string + goRegexp" where
  "frag_Compile text =
     (if \<not> validUTF8 text then Inl ''invalid UTF-8''
      else
        case lexRe text of
          None \<Rightarrow> Inl ''error parsing regexp''
        | Some ts \<Rightarrow>
            let a = (ts \<noteq> [] \<and> hd ts = TBol);
                ts1 = (if a then tl ts else ts);
                e = (ts1 \<noteq> [] \<and> last ts1 = TEol);
                ts2 = (if e then butlast ts1 else ts1)
            in case build ts2 of
                 None \<Rightarrow> Inl ''error parsing regexp''
               | Some r \<Rightarrow> Inr \<lparr>anchoredStart = a, body = r, anchoredEnd = e\<rparr>)"

definition frag_Matches :: "goRegexp \<Rightarrow> string \<Rightarrow> string \<Rightarrow> string \<Rightarrow> bool" where
  "frag_Matches p u w v =
     (if anchoredStart p \<and> u \<noteq> [] then False
      else if anchoredEnd p \<and> v \<noteq> [] then False
      else accepts (body p) w)"

subsection \<open>A model of package net/url\<close>

text \<open>
  The parser of Go's \<^verbatim>\<open>net/url\<close>, as far as it decides whether \<^verbatim>\<open>url.Parse\<close> fails and
  what the host is: the control-character check, the scheme, the query and the fragment
  cut off, opaque and rootless references, the authority with its user information,
  host, port and percent escapes, and the escapes of path and fragment. The fields of
  \<^verbatim>\<open>URL\<close> that the program never reads (user, raw path, flags) are left out. A host
  outside brackets may hold one colon, before its port. The address between brackets is
  not checked to be an IP address, as releases of Go before 1.25 did not.
\<close>

definition Index :: "string \<Rightarrow> string \<Rightarrow> int" where
  \<comment> \<open>The index of the first occurrence of \<open>sub\<close> in \<open>s\<close>, or \<open>-1\<close>.\<close>
  "Index s sub =
     (case filter (\<lambda>i. HasPrefix (drop i s) sub) [0..<Suc (length s)] of
        [] \<Rightarrow> - 1
      | i # _ \<Rightarrow> int i)"

definition Cut :: "string \<Rightarrow> string \<Rightarrow> string \<times> string \<times> bool" where
  "Cut s sep =
     (let i = Index s sep
      in if i \<ge> 0 then (take (nat i) s, drop (nat i + length sep) s, True)
         else (s, [], False))"

record URL =
  Scheme :: string
  Opaque :: string
  Host :: string
  Path :: string
  RawQuery :: string
  Fragment :: string

datatype encoding =
    encodePath
  | encodePathSegment
  | encodeHost
  | encodeZone
  | encodeUserPassword
  | encodeQueryComponent
  | encodeFragment

definition stringContainsCTLByte :: "string \<Rightarrow> bool" where
  "stringContainsCTLByte s =
     list_ex (\<lambda>b. (of_char b :: nat) < 32 \<or> (of_char b :: nat) = 127) s"

fun getSchemeFrom :: "string \<Rightarrow> nat \<Rightarrow> string \<Rightarrow> string + (string \<times> string)" where
  "getSchemeFrom rawURL i [] = Inr ([], rawURL)"
| "getSchemeFrom rawURL i (c # cs) =
     (let n = (of_char c :: nat)
      in if (97 \<le> n \<and> n \<le> 122) \<or> (65 \<le> n \<and> n \<le> 90) then getSchemeFrom rawURL (i + 1) cs
         else if (48 \<le> n \<and> n \<le> 57) \<or> c = CHR ''+'' \<or> c = CHR ''-'' \<or> c = CHR ''.'' then
           (if i = 0 then Inr ([], rawURL) else getSchemeFrom rawURL (i + 1) cs)
         else if c = CHR '':'' then
           (if i = 0 then Inl ''missing protocol scheme''
            else Inr (take i rawURL, drop (i + 1) rawURL))
         else Inr ([], rawURL))"

definition getScheme :: "string \<Rightarrow> string + (string \<times> string)" where
  "getScheme rawURL = getSchemeFrom rawURL 0 rawURL"

definition validOptionalPort :: "string \<Rightarrow> bool" where
  "validOptionalPort port =
     (case port of
        [] \<Rightarrow> True
      | c # ds \<Rightarrow>
          c = CHR '':'' \<and> list_all (\<lambda>b. 48 \<le> (of_char b :: nat) \<and> (of_char b :: nat) \<le> 57) ds)"

definition ishex :: "char \<Rightarrow> bool" where
  "ishex c = (c \<in> set ''0123456789abcdefABCDEF'')"

definition unhex :: "char \<Rightarrow> nat" where
  "unhex c =
     (let n = (of_char c :: nat)
      in if 48 \<le> n \<and> n \<le> 57 then n - 48
         else if 97 \<le> n \<and> n \<le> 102 then n - 97 + 10
         else if 65 \<le> n \<and> n \<le> 70 then n - 65 + 10
         else 0)"

definition shouldEscapeHost :: "char \<Rightarrow> bool" where
  \<comment> \<open>\<^verbatim>\<open>shouldEscape(c, encodeHost)\<close>: everything but letters, digits, the sub-delimiters
      a host may hold, and the unreserved marks.\<close>
  "shouldEscapeHost c =
     (\<not> (isAlnum c
         \<or> c \<in> set (''!$&()*+,;=:[]<>'' @ [CHR 0x27, CHR 0x22])
         \<or> c \<in> set ''-_.~''))"

fun unescape :: "string \<Rightarrow> encoding \<Rightarrow> string + string" where
  "unescape [] mode = Inr []"
| "unescape (c # cs) mode =
     (if c = CHR ''%'' then
        (case cs of
           h1 # h2 # rest \<Rightarrow>
             let v = char_of (unhex h1 * 16 + unhex h2)
             in if \<not> ishex h1 \<or> \<not> ishex h2 then Inl ''invalid URL escape''
                else if mode = encodeHost \<and> unhex h1 < 8 \<and> [h1, h2] \<noteq> ''25''
                  then Inl ''invalid URL escape''
                else if mode = encodeZone \<and> [h1, h2] \<noteq> ''25'' \<and> v \<noteq> CHR '' ''
                        \<and> shouldEscapeHost v
                  then Inl ''invalid URL escape''
                else (case unescape rest mode of Inl err \<Rightarrow> Inl err | Inr t \<Rightarrow> Inr (v # t))
         | _ \<Rightarrow> Inl ''invalid URL escape'')
      else if c = CHR ''+'' then
        (case unescape cs mode of
           Inl err \<Rightarrow> Inl err
         | Inr t \<Rightarrow> Inr ((if mode = encodeQueryComponent then CHR '' '' else c) # t))
      else if (mode = encodeHost \<or> mode = encodeZone) \<and> (of_char c :: nat) < 128
              \<and> shouldEscapeHost c
        then Inl ''invalid character in host name''
      else (case unescape cs mode of Inl err \<Rightarrow> Inl err | Inr t \<Rightarrow> Inr (c # t)))"

definition validUserinfo :: "string \<Rightarrow> bool" where
  "validUserinfo s =
     list_all (\<lambda>r. isAlnum r \<or> r \<in> set (''-._:~!$&()*+,;=%@'' @ [CHR 0x27])) s"

definition parseHost :: "string \<Rightarrow> string + string" where
  "parseHost host =
     (if HasPrefix host ''['' then
        (let i = LastIndex host '']''
         in if i < 0 then Inl ''missing ] in host''
            else if \<not> validOptionalPort (drop (nat i + 1) host)
              then Inl ''invalid port after host''
            else
              let zone = Index (take (nat i) host) ''%25''
              in if zone \<ge> 0 then
                   (case unescape (take (nat zone) host) encodeHost of
                      Inl err \<Rightarrow> Inl err
                    | Inr host1 \<Rightarrow>
                        (case unescape (drop (nat zone) (take (nat i) host)) encodeZone of
                           Inl err \<Rightarrow> Inl err
                         | Inr host2 \<Rightarrow>
                             (case unescape (drop (nat i) host) encodeHost of
                                Inl err \<Rightarrow> Inl err
                              | Inr host3 \<Rightarrow> Inr (host1 @ host2 @ host3))))
                 else unescape host encodeHost)
      else if LastIndex host '':'' \<noteq> - 1
              \<and> \<not> validOptionalPort (drop (nat (LastIndex host '':'')) host)
        then Inl ''invalid port after host''
      else if LastIndex host '':'' \<noteq> - 1
              \<and> Contains (take (nat (LastIndex host '':'')) host) '':''
        then Inl ''invalid host: too many colons''
      else unescape host encodeHost)"

definition parseAuthority :: "string \<Rightarrow> string + string" where
  \<comment> \<open>The host of the authority; the user information is validated and dropped.\<close>
  "parseAuthority authority =
     (let i = LastIndex authority ''@''
      in case (if i < 0 then parseHost authority else parseHost (drop (nat i + 1) authority)) of
           Inl err \<Rightarrow> Inl err
         | Inr host \<Rightarrow>
             if i < 0 then Inr host
             else
               let userinfo = take (nat i) authority
               in if \<not> validUserinfo userinfo then Inl ''net/url: invalid userinfo''
                  else if \<not> Contains userinfo '':'' then
                    (case unescape userinfo encodeUserPassword of
                       Inl err \<Rightarrow> Inl err
                     | Inr _ \<Rightarrow> Inr host)
                  else
                    (case Cut userinfo '':'' of
                       (username, password, _) \<Rightarrow>
                         (case unescape username encodeUserPassword of
                            Inl err \<Rightarrow> Inl err
                          | Inr _ \<Rightarrow>
                              (case unescape password encodeUserPassword of
                                 Inl err \<Rightarrow> Inl err
                               | Inr _ \<Rightarrow> Inr host))))"

definition parse :: "string \<Rightarrow> string + URL" where
  \<comment> \<open>\<^verbatim>\<open>parse(rawURL, viaRequest)\<close> with \<^verbatim>\<open>viaRequest = false\<close>.\<close>
  "parse rawURL =
     (if stringContainsCTLByte rawURL then Inl ''net/url: invalid control character in URL''
      else if rawURL = ''*'' then
        Inr \<lparr>Scheme = [], Opaque = [], Host = [], Path = ''*'', RawQuery = [], Fragment = []\<rparr>
      else
        case getScheme rawURL of
          Inl err \<Rightarrow> Inl err
        | Inr (scheme0, rest0) \<Rightarrow>
            let scheme = map lowerByte scheme0;  \<comment> \<open>\<^verbatim>\<open>ToLower\<close> of a scheme, which is ASCII\<close>
                (rest, rawQuery) =
                  (if HasSuffix rest0 ''?'' \<and> count_list rest0 (CHR ''?'') = 1
                   then (butlast rest0, [])
                   else (case Cut rest0 ''?'' of (before, after, _) \<Rightarrow> (before, after)))
            in if \<not> HasPrefix rest ''/'' \<and> scheme \<noteq> [] then
                 Inr \<lparr>Scheme = scheme, Opaque = rest, Host = [], Path = [],
                      RawQuery = rawQuery, Fragment = []\<rparr>
               else if \<not> HasPrefix rest ''/'' \<and> Contains (fst (Cut rest ''/'')) '':'' then
                 Inl ''first path segment in URL cannot contain colon''
               else
                 case (if (scheme \<noteq> [] \<or> \<not> HasPrefix rest ''///'') \<and> HasPrefix rest ''//'' then
                         (let authority0 = drop 2 rest;
                              i = Index authority0 ''/'';
                              authority = (if i \<ge> 0 then take (nat i) authority0 else authority0);
                              rest1 = (if i \<ge> 0 then drop (nat i) authority0 else [])
                          in case parseAuthority authority of
                               Inl err \<Rightarrow> Inl err
                             | Inr host \<Rightarrow> Inr (host, rest1))
                       else Inr ([], rest)) of
                   Inl err \<Rightarrow> Inl err
                 | Inr (host, rest2) \<Rightarrow>
                     (case unescape rest2 encodePath of
                        Inl err \<Rightarrow> Inl err
                      | Inr path \<Rightarrow>
                          Inr \<lparr>Scheme = scheme, Opaque = [], Host = host, Path = path,
                               RawQuery = rawQuery, Fragment = []\<rparr>))"

definition Parse :: "string \<Rightarrow> string + URL" where
  "Parse rawURL =
     (case Cut rawURL ''#'' of
        (u, frag, _) \<Rightarrow>
          (case parse u of
             Inl err \<Rightarrow> Inl err
           | Inr url \<Rightarrow>
               if frag = [] then Inr url
               else
                 (case unescape frag encodeFragment of
                    Inl err \<Rightarrow> Inl err
                  | Inr f \<Rightarrow> Inr (url\<lparr>Fragment := f\<rparr>))))"

definition splitHostPort :: "string \<Rightarrow> string \<times> string" where
  "splitHostPort hostPort =
     (let colon = LastIndex hostPort '':'';
          split = (colon \<noteq> - 1 \<and> validOptionalPort (drop (nat colon) hostPort));
          host = (if split then take (nat colon) hostPort else hostPort);
          port = (if split then drop (nat colon + 1) hostPort else []);
          host = (if HasPrefix host ''['' \<and> HasSuffix host '']''
                  then take (length host - 2) (drop 1 host) else host)
      in (host, port))"

definition Hostname :: "URL \<Rightarrow> string" where
  "Hostname u = fst (splitHostPort (Host u))"

subsection \<open>The model library\<close>

text \<open>
  The lower-casing of the model library: the letters of ASCII and of Latin-1 (U+00C0 to
  U+00DE) go to lower case, a byte that starts no UTF-8 character becomes U+FFFD as in
  Go, and every other character is kept. That is Go's result on the strings whose
  characters beyond Latin-1 have no lower-case form.
\<close>

definition lowerLatin1 :: "string \<Rightarrow> string" where
  "lowerLatin1 ch =
     (case ch of
        [c] \<Rightarrow> [lowerByte c]
      | [c, d] \<Rightarrow>
          if c = CHR 0xC3 \<and> 128 \<le> (of_char d :: nat) \<and> (of_char d :: nat) \<le> 158
             \<and> (of_char d :: nat) \<noteq> 151
          then [c, char_of ((of_char d :: nat) + 32)]
          else ch
      | _ \<Rightarrow> ch)"

fun lowerUTF8 :: "string \<Rightarrow> string" where
  "lowerUTF8 [] = []"
| "lowerUTF8 (c # cs) =
     (if utf8Len (c # cs) = 0 then [CHR 0xEF, CHR 0xBF, CHR 0xBD] @ lowerUTF8 cs
      else lowerLatin1 (take (utf8Len (c # cs)) (c # cs))
           @ lowerUTF8 (drop (utf8Len (c # cs)) (c # cs)))"

definition goLib :: "(goRegexp, URL) stdlib" where
  "goLib =
     \<lparr>regexp_Compile = frag_Compile, regexp_Matches = frag_Matches,
      url_Parse = Parse, url_Hostname = Hostname, unicode_ToLower = lowerUTF8\<rparr>"

subsection \<open>Notions the properties are stated with\<close>

text \<open>
  The value of the variable \<^verbatim>\<open>domain\<close> after the call of \<^verbatim>\<open>normalizeDomain\<close> in
  \<^verbatim>\<open>inScope\<close>, when the call gets there: the hostname of a URL-like input, the input
  itself when it is not URL-like or when its hostname cannot be extracted and the strict
  flag is off. With the strict flag on, an input whose hostname cannot be extracted has
  no normalized domain: \<^verbatim>\<open>inScope\<close> returns before it normalizes.
\<close>

definition normalizedDomain :: "('re, 'u) stdlib \<Rightarrow> Config \<Rightarrow> string \<Rightarrow> string option" where
  "normalizedDomain L config input =
     (if isURL L input then
        (case getHostname L input of
           Inl err \<Rightarrow> (if strict config then None else Some (normalizeDomain L input))
         | Inr hostname \<Rightarrow> Some (normalizeDomain L hostname))
      else Some (normalizeDomain L input))"

text \<open>
  What the properties of \<^verbatim>\<open>isURL\<close> use of Go's Unicode tables, at a string \<open>s\<close> that has a
  byte beyond ASCII: lower-casing \<open>s\<close> neither makes nor removes one of the characters
  \<^verbatim>\<open>/\<close>, \<^verbatim>\<open>?\<close> and \<^verbatim>\<open>#\<close>, and when \<open>s\<close> has no white space at its ends, its lower-case form
  has none. Go's \<^verbatim>\<open>unicode.ToLower\<close> maps every character to one character, a character
  of ASCII that is no letter to itself, and no other character to such a character or to
  white space.
\<close>

definition lowerKeeps :: "('re, 'u) stdlib \<Rightarrow> string \<Rightarrow> bool" where
  "lowerKeeps L s =
     (if isASCII s then True
      else (CHR ''/'' \<in> set (unicode_ToLower L s)) = (CHR ''/'' \<in> set s)
         \<and> (CHR ''?'' \<in> set (unicode_ToLower L s)) = (CHR ''?'' \<in> set s)
         \<and> (CHR ''#'' \<in> set (unicode_ToLower L s)) = (CHR ''#'' \<in> set s)
         \<and> (if TrimSpace s = s then TrimSpace (unicode_ToLower L s) = unicode_ToLower L s
             else True))"

text \<open>The translation of one character of a wildcard pattern.\<close>

definition wildcardChar :: "char \<Rightarrow> string" where
  "wildcardChar c =
     (if c = CHR ''.'' then [CHR 0x5C, CHR ''.'']
      else if c = CHR ''*'' then ''.*''
      else [c])"

text \<open>The tokens of the translation of one character of a wildcard pattern.\<close>

definition wildcardToks :: "char \<Rightarrow> tok list" where
  "wildcardToks c = (if c = CHR ''*'' then [TDot, TStar] else [TLit c])"

text \<open>The expression a wildcard pattern stands for: \<^verbatim>\<open>*\<close> is any run of characters
  other than a line feed, every other character is itself.\<close>

definition wildcardExp :: "string \<Rightarrow> rexp" where
  "wildcardExp line = foldr (\<lambda>c r. Seq (if c = CHR ''*'' then Star Dot else Lit c) r) line One"

subsection \<open>An example scope\<close>

text \<open>The scope file of the specification's examples, the checker \<^verbatim>\<open>newScopeChecker\<close>
  builds from it, and the two configurations that matter to \<^verbatim>\<open>inScope\<close>.\<close>

definition exampleFile :: reader where
  "exampleFile =
     \<lparr>rd_lines = [''# targets'', ''*.example.com'', '''', ''www.*'', '' !admin.example.com''],
      rd_err = None\<rparr>"

definition exampleChecker :: "goRegexp scopeChecker" where
  "exampleChecker =
     \<lparr>patterns =
        [\<lparr>expr = ''^.*'' @ [CHR 0x5C] @ ''.example'' @ [CHR 0x5C] @ ''.com$'',
          prog = \<lparr>anchoredStart = True, body = wildcardExp ''*.example.com'',
                  anchoredEnd = True\<rparr>\<rparr>,
         \<lparr>expr = ''^www'' @ [CHR 0x5C] @ ''..*$'',
          prog = \<lparr>anchoredStart = True, body = wildcardExp ''www.*'',
                  anchoredEnd = True\<rparr>\<rparr>],
      antipatterns =
        [\<lparr>expr = ''^admin'' @ [CHR 0x5C] @ ''.example'' @ [CHR 0x5C] @ ''.com$'',
          prog = \<lparr>anchoredStart = True, body = wildcardExp ''admin.example.com'',
                  anchoredEnd = True\<rparr>\<rparr>],
      stats = \<lparr>stats_total = 0, stats_inScope = 0, stats_outScope = 0\<rparr>\<rparr>"

definition lenientConfig :: Config where
  "lenientConfig =
     \<lparr>scopeFile = [], verbose = False, invert = False, showStats = False, strict = False\<rparr>"

definition strictConfig :: Config where
  "strictConfig =
     \<lparr>scopeFile = [], verbose = False, invert = False, showStats = False, strict = True\<rparr>"

section \<open>Properties\<close>

subsection \<open>Facts about the strings functions\<close>

lemma HasPrefix_drop_single:
  "HasPrefix (drop i s) [c] \<longleftrightarrow> i < length s \<and> s ! i = c"
proof (cases "i < length s")
  case True
  then have "drop i s = s ! i # drop (Suc i) s" by (simp add: Cons_nth_drop_Suc)
  then show ?thesis using True by (simp add: HasPrefix_def)
next
  case False then show ?thesis by (simp add: HasPrefix_def)
qed

lemma HasPrefix_single: "HasPrefix s [c] \<longleftrightarrow> s \<noteq> [] \<and> hd s = c"
  by (cases s) (auto simp: HasPrefix_def)

lemma Contains_single: "Contains s [c] \<longleftrightarrow> c \<in> set s"
  by (auto simp: Contains_def list_ex_iff HasPrefix_drop_single in_set_conv_nth less_Suc_eq)

lemma LastIndex_none: "c \<notin> set s \<Longrightarrow> LastIndex s [c] = - 1"
proof -
  have "filter (\<lambda>i. HasPrefix (drop i s) [c]) (rev [0..<Suc (length s)]) = []"
    if "c \<notin> set s"
    using that unfolding filter_empty_conv HasPrefix_drop_single by (metis nth_mem)
  then show "c \<notin> set s \<Longrightarrow> LastIndex s [c] = - 1" by (simp add: LastIndex_def)
qed

lemma filter_rev_upt_last:
  assumes "i < n" "P i" "\<forall>j. i < j \<and> j < n \<longrightarrow> \<not> P j"
  shows "\<exists>r. filter P (rev [0..<n]) = i # r"
  using assms
proof (induction n)
  case 0 then show ?case by simp
next
  case (Suc n)
  show ?case
  proof (cases "i = n")
    case True with Suc.prems show ?thesis by simp
  next
    case False
    with Suc.prems have "i < n" "\<not> P n" by auto
    with Suc show ?thesis by auto
  qed
qed

lemma LastIndex_last:
  assumes "s = h @ c # p" "c \<notin> set p"
  shows "LastIndex s [c] = int (length h)"
proof -
  let ?P = "\<lambda>i. HasPrefix (drop i s) [c]"
  have a: "length h < Suc (length s)" using assms by simp
  have b: "?P (length h)" using assms by (simp add: HasPrefix_def)
  have c: "\<forall>j. length h < j \<and> j < Suc (length s) \<longrightarrow> \<not> ?P j"
  proof (intro allI impI notI)
    fix j assume j: "length h < j \<and> j < Suc (length s)" and "?P j"
    then have "j < length s" "s ! j = c" by (auto simp: HasPrefix_drop_single)
    with j assms have "p ! (j - Suc (length h)) = c" "j - Suc (length h) < length p"
      by (auto simp: nth_append nth_Cons split: nat.splits)
    with assms(2) show False by (metis nth_mem)
  qed
  from filter_rev_upt_last[of "length h" "Suc (length s)" ?P, OF a b c]
  show ?thesis by (auto simp: LastIndex_def)
qed

lemma TrimSuffix_single:
  "TrimSuffix s [c] = (if s \<noteq> [] \<and> last s = c then butlast s else s)"
proof (cases s rule: rev_cases)
  case Nil then show ?thesis by (simp add: TrimSuffix_def HasSuffix_def)
next
  case (snoc ys y) then show ?thesis by (auto simp: TrimSuffix_def HasSuffix_def)
qed

lemma lowerByte_bracket: "lowerByte c = CHR ''['' \<longleftrightarrow> c = CHR ''[''"
proof -
  have "char_of (of_char c + (32::nat)) \<noteq> CHR ''[''"
    if "65 \<le> (of_char c::nat)" "(of_char c::nat) \<le> 90"
  proof
    assume "char_of (of_char c + (32::nat)) = CHR ''[''"
    then have "(of_char (char_of (of_char c + (32::nat)) :: char) :: nat) = of_char (CHR ''['')"
      by simp
    then show False using that by (simp add: of_char_of)
  qed
  moreover have "(of_char (CHR ''['') :: nat) = 91" by simp
  ultimately show ?thesis by (auto simp: lowerByte_def Let_def)
qed

lemma HasPrefix_bracket_norm:
  "HasPrefix (if map lowerByte d \<noteq> [] \<and> last (map lowerByte d) = CHR ''.''
              then butlast (map lowerByte d) else map lowerByte d) ''[''
     \<longleftrightarrow> HasPrefix d ''[''"
proof (cases d)
  case Nil then show ?thesis by (simp add: HasPrefix_def)
next
  case (Cons a as)
  show ?thesis
  proof (cases as rule: rev_cases)
    case Nil
    have lb: "lowerByte CHR ''['' = CHR ''[''" by (simp add: lowerByte_bracket)
    from Nil Cons show ?thesis
      by (auto simp: HasPrefix_single lowerByte_bracket lb)
  next
    case (snoc bs b)
    with Cons show ?thesis
      by (auto simp: HasPrefix_single lowerByte_bracket butlast_append)
  qed
qed

subsection \<open>Normalization\<close>

text \<open>
  Claim C5. \<open>normalizeDomain\<close> lowercases the whole string with \<^verbatim>\<open>strings.ToLower\<close> (\<open>l\<close>:
  byte by byte when the string is ASCII, by the Unicode tables otherwise), strips one
  trailing dot (\<open>t\<close>), and cuts \<open>t\<close> at its last colon exactly when the part \<open>h\<close> before
  that colon holds no other colon and \<open>t\<close> does not start with an opening bracket;
  otherwise, and when \<open>t\<close> has no colon, the result is \<open>t\<close>. An ASCII string starts with a
  bracket exactly when \<open>t\<close> does. In particular \<^verbatim>\<open>[::1]:8080\<close> is returned unchanged.
\<close>

theorem normalizeDomain_spec:
  fixes d :: string and L :: "('re, 'u) stdlib"
  defines "l \<equiv> ToLower L d"
  defines "t \<equiv> (if l \<noteq> [] \<and> last l = CHR ''.'' then butlast l else l)"
  shows "(isASCII d \<longrightarrow> l = map lowerByte d)
    \<and> (\<not> isASCII d \<longrightarrow> l = unicode_ToLower L d)
    \<and> (\<forall>h p. t = h @ CHR '':'' # p \<and> CHR '':'' \<notin> set p \<longrightarrow>
           normalizeDomain L d = (if CHR '':'' \<notin> set h \<and> \<not> HasPrefix t ''['' then h else t))
    \<and> (CHR '':'' \<notin> set t \<longrightarrow> normalizeDomain L d = t)
    \<and> (isASCII d \<longrightarrow> HasPrefix t ''['' = HasPrefix d ''['')
    \<and> normalizeDomain L ''[::1]:8080'' = ''[::1]:8080''"
proof (intro conjI)
  show "isASCII d \<longrightarrow> l = map lowerByte d" by (simp add: l_def ToLower_def)
  show "\<not> isASCII d \<longrightarrow> l = unicode_ToLower L d" by (simp add: l_def ToLower_def)
  have t: "t = TrimSuffix (ToLower L d) ''.''" by (simp add: t_def l_def TrimSuffix_single)
  show "\<forall>h p. t = h @ CHR '':'' # p \<and> CHR '':'' \<notin> set p \<longrightarrow>
           normalizeDomain L d = (if CHR '':'' \<notin> set h \<and> \<not> HasPrefix t ''['' then h else t)"
  proof (intro allI impI)
    fix h p assume a: "t = h @ CHR '':'' # p \<and> CHR '':'' \<notin> set p"
    then have "LastIndex t '':'' = int (length h)" using LastIndex_last by blast
    then show "normalizeDomain L d =
        (if CHR '':'' \<notin> set h \<and> \<not> HasPrefix t ''['' then h else t)"
      using a by (simp add: normalizeDomain_def Let_def t[symmetric] Contains_single)
  qed
  show "CHR '':'' \<notin> set t \<longrightarrow> normalizeDomain L d = t"
    by (simp add: normalizeDomain_def Let_def t[symmetric] LastIndex_none)
  show "isASCII d \<longrightarrow> HasPrefix t ''['' = HasPrefix d ''[''"
  proof
    assume "isASCII d"
    then have "l = map lowerByte d" by (simp add: l_def ToLower_def)
    then show "HasPrefix t ''['' = HasPrefix d ''[''"
      unfolding t_def using HasPrefix_bracket_norm[of d] by (simp only:)
  qed
  have "isASCII ''[::1]:8080''" by code_simp
  then have low: "ToLower L ''[::1]:8080'' = map lowerByte ''[::1]:8080''"
    by (simp only: ToLower_def if_True)
  have "(let domain = map lowerByte ''[::1]:8080'';
          domain = TrimSuffix domain ''.'';
          idx = LastIndex domain '':''
      in if idx \<noteq> - 1
         then (if \<not> Contains (take (nat idx) domain) '':'' \<and> \<not> HasPrefix domain ''[''
               then take (nat idx) domain
               else domain)
         else domain) = ''[::1]:8080''" by code_simp
  then show "normalizeDomain L ''[::1]:8080'' = ''[::1]:8080''"
    unfolding normalizeDomain_def low .
qed

theorem normalizeDomain_spec_witness:
  "normalizeDomain goLib ''Example.COM:8443.'' = ''example.com''
   \<and> normalizeDomain goLib ''a:b:80'' = ''a:b:80''
   \<and> normalizeDomain goLib ''Example.COM.'' = ''example.com''
   \<and> normalizeDomain goLib ([CHR 0xC3, CHR 0x89] @ ''.COM:80'') = [CHR 0xC3, CHR 0xA9] @ ''.com''"
proof -
  have l1: "ToLower goLib ''Example.COM:8443.'' = ''example.com:8443.''" by code_simp
  have l2: "ToLower goLib ''a:b:80'' = ''a:b:80''" by code_simp
  have l3: "ToLower goLib ''Example.COM.'' = ''example.com.''" by code_simp
  have l4: "ToLower goLib ([CHR 0xC3, CHR 0x89] @ ''.COM:80'') = [CHR 0xC3, CHR 0xA9] @ ''.com:80''"
    by code_simp
  have p1: "\<not> HasPrefix ''example.com:8443'' ''[''" by code_simp
  have p4: "\<not> HasPrefix ([CHR 0xC3, CHR 0xA9] @ ''.com:80'') ''[''" by code_simp
  note cut = normalizeDomain_spec[THEN conjunct2, THEN conjunct2, THEN conjunct1, rule_format]
  note keep = normalizeDomain_spec[THEN conjunct2, THEN conjunct2, THEN conjunct2,
      THEN conjunct1, rule_format]
  have a: "normalizeDomain goLib ''Example.COM:8443.'' = ''example.com''"
    using cut[of goLib "''Example.COM:8443.''" "''example.com''" "''8443''"] p1
    unfolding l1 by simp
  have b: "normalizeDomain goLib ''a:b:80'' = ''a:b:80''"
    using cut[of goLib "''a:b:80''" "''a:b''" "''80''"]
    unfolding l2 by simp
  have c: "normalizeDomain goLib ''Example.COM.'' = ''example.com''"
    using keep[of goLib "''Example.COM.''"] unfolding l3 by simp
  have d: "normalizeDomain goLib ([CHR 0xC3, CHR 0x89] @ ''.COM:80'') = [CHR 0xC3, CHR 0xA9] @ ''.com''"
    using cut[of goLib "[CHR 0xC3, CHR 0x89] @ ''.COM:80''" "[CHR 0xC3, CHR 0xA9] @ ''.com''" "''80''"] p4
    unfolding l4 by simp
  from a b c d show ?thesis by simp
qed

subsection \<open>Classification\<close>

lemma firstMatch_none: "\<forall>q \<in> set xs. \<not> m q \<Longrightarrow> firstMatch m xs = (None, xs)"
  by (induction xs) auto

lemma firstMatch_first:
  "\<forall>q \<in> set pre. \<not> m q \<Longrightarrow> m p \<Longrightarrow> firstMatch m (pre @ p # post) = (Some p, pre @ [p])"
  by (induction pre) auto

lemma first_match_split:
  "\<exists>q \<in> set xs. m q \<Longrightarrow> \<exists>pre p post. xs = pre @ p # post \<and> (\<forall>q \<in> set pre. \<not> m q) \<and> m p"
  by (metis split_list_first_prop)

lemma inScope_resolved:
  assumes "normalizedDomain L config input = Some d"
  shows "inScope L config s input =
    (let s1 = bumpTotal s;
         (included, itried) = firstMatch (\<lambda>p. MatchString L p d) (patterns s1);
         (excluded, etried) = firstMatch (\<lambda>p. MatchString L p d) (antipatterns s1)
     in case excluded of
          Some p \<Rightarrow> \<lparr>ok = False, matchedPattern = ''!'' @ String p, checker = bumpOutScope s1,
                     includesTried = itried, excludesTried = etried\<rparr>
        | None \<Rightarrow> (case included of
             Some p \<Rightarrow> \<lparr>ok = True, matchedPattern = String p, checker = bumpInScope s1,
                          includesTried = itried, excludesTried = etried\<rparr>
           | None \<Rightarrow> \<lparr>ok = False, matchedPattern = [], checker = bumpOutScope s1,
                          includesTried = itried, excludesTried = etried\<rparr>))"
  using assms
  by (auto simp: normalizedDomain_def inScope_def Let_def split: if_splits sum.splits)

lemma inScope_unresolved:
  assumes "normalizedDomain L config input = None"
  shows "inScope L config s input =
     \<lparr>ok = False, matchedPattern = [], checker = bumpTotal s,
      includesTried = [], excludesTried = []\<rparr>"
  using assms
  by (auto simp: normalizedDomain_def inScope_def Let_def split: if_splits sum.splits)

lemma bump_patterns [simp]:
  "patterns (bumpTotal s) = patterns s" "antipatterns (bumpTotal s) = antipatterns s"
  "patterns (bumpInScope s) = patterns s" "antipatterns (bumpInScope s) = antipatterns s"
  "patterns (bumpOutScope s) = patterns s" "antipatterns (bumpOutScope s) = antipatterns s"
  by (simp_all add: bumpTotal_def bumpInScope_def bumpOutScope_def)

text \<open>
  Claim C1. When the normalized domain \<open>d\<close> of the input is accepted by some exclude
  pattern, \<open>inScope\<close> returns \<^verbatim>\<open>false\<close> and the text of the first exclude pattern that
  accepts \<open>d\<close>, with \<^verbatim>\<open>!\<close> before it, whatever the include patterns are; the exclude
  loop calls the matcher on the patterns up to that one and on none after it.
\<close>

theorem exclusion_overrides_inclusion:
  assumes "normalizedDomain L config input = Some d"
      and "\<exists>q \<in> set (antipatterns s). MatchString L q d"
  shows "\<exists>pre p post.
           antipatterns s = pre @ p # post
         \<and> (\<forall>q \<in> set pre. \<not> MatchString L q d) \<and> MatchString L p d
         \<and> ok (inScope L config s input) = False
         \<and> matchedPattern (inScope L config s input) = ''!'' @ String p
         \<and> excludesTried (inScope L config s input) = pre @ [p]"
proof -
  from first_match_split[OF assms(2)] obtain pre p post where
    sp: "antipatterns s = pre @ p # post" "\<forall>q \<in> set pre. \<not> MatchString L q d" "MatchString L p d"
    by blast
  have fm: "firstMatch (\<lambda>p. MatchString L p d) (antipatterns s) = (Some p, pre @ [p])"
    unfolding sp(1) using sp(2,3) by (rule firstMatch_first)
  have "ok (inScope L config s input) = False
      \<and> matchedPattern (inScope L config s input) = ''!'' @ String p
      \<and> excludesTried (inScope L config s input) = pre @ [p]"
    by (simp add: inScope_resolved[OF assms(1)] Let_def fm split: prod.splits)
  with sp show ?thesis by blast
qed

lemma exampleChecker_built: "newScopeChecker goLib exampleFile = Inr exampleChecker"
  by code_simp

theorem exclusion_overrides_inclusion_witness:
  "normalizedDomain goLib lenientConfig ''Admin.Example.com'' = Some ''admin.example.com''
   \<and> ok (inScope goLib lenientConfig exampleChecker ''Admin.Example.com'') = False
   \<and> matchedPattern (inScope goLib lenientConfig exampleChecker ''Admin.Example.com'')
       = ''!^admin'' @ [CHR 0x5C] @ ''.example'' @ [CHR 0x5C] @ ''.com$''
   \<and> length (excludesTried (inScope goLib lenientConfig exampleChecker ''Admin.Example.com'')) = 1"
proof -
  have d: "normalizedDomain goLib lenientConfig ''Admin.Example.com'' = Some ''admin.example.com''"
    by code_simp
  have m: "\<exists>q \<in> set (antipatterns exampleChecker). MatchString goLib q ''admin.example.com''"
    by code_simp
  have a: "antipatterns exampleChecker =
     [\<lparr>expr = ''^admin'' @ [CHR 0x5C] @ ''.example'' @ [CHR 0x5C] @ ''.com$'',
          prog = \<lparr>anchoredStart = True, body = wildcardExp ''admin.example.com'',
                  anchoredEnd = True\<rparr>\<rparr>]"
    by (simp add: exampleChecker_def)
  from exclusion_overrides_inclusion[OF d m] obtain pre p post where
    *: "antipatterns exampleChecker = pre @ p # post"
       "ok (inScope goLib lenientConfig exampleChecker ''Admin.Example.com'') = False"
       "matchedPattern (inScope goLib lenientConfig exampleChecker ''Admin.Example.com'') = ''!'' @ String p"
       "excludesTried (inScope goLib lenientConfig exampleChecker ''Admin.Example.com'') = pre @ [p]"
    by blast
  from *(1) have "pre = []" "p = \<lparr>expr = ''^admin'' @ [CHR 0x5C] @ ''.example'' @ [CHR 0x5C] @ ''.com$'',
          prog = \<lparr>anchoredStart = True, body = wildcardExp ''admin.example.com'',
                  anchoredEnd = True\<rparr>\<rparr>"
    unfolding a by (simp_all add: Cons_eq_append_conv)
  with * d show ?thesis by (simp add: String_def)
qed

text \<open>
  Claim C7. The returned label is empty when no pattern matched: when the call returns
  before matching, and when neither an include nor an exclude pattern accepts the
  normalized domain \<open>d\<close>. The include loop calls the matcher on the include patterns up
  to the first one that accepts \<open>d\<close> and on none after it; when no exclude pattern accepts
  \<open>d\<close>, the call returns \<^verbatim>\<open>true\<close> and that pattern's text, whatever the include patterns
  after it are.
\<close>

theorem matched_label_first_include:
  "(normalizedDomain L config input = None \<longrightarrow>
      matchedPattern (inScope L config s input) = []
      \<and> includesTried (inScope L config s input) = []
      \<and> excludesTried (inScope L config s input) = [])
   \<and> (normalizedDomain L config input = Some d
        \<and> (\<forall>q \<in> set (patterns s) \<union> set (antipatterns s). \<not> MatchString L q d) \<longrightarrow>
      matchedPattern (inScope L config s input) = [] \<and> \<not> ok (inScope L config s input))
   \<and> (normalizedDomain L config input = Some d
        \<and> patterns s = pre @ p # post
        \<and> (\<forall>q \<in> set pre. \<not> MatchString L q d) \<and> MatchString L p d \<longrightarrow>
      includesTried (inScope L config s input) = pre @ [p]
      \<and> ((\<forall>q \<in> set (antipatterns s). \<not> MatchString L q d) \<longrightarrow>
           ok (inScope L config s input)
           \<and> matchedPattern (inScope L config s input) = String p))"
proof (intro conjI impI)
  assume "normalizedDomain L config input = None"
  then show "matchedPattern (inScope L config s input) = []"
    "includesTried (inScope L config s input) = []"
    "excludesTried (inScope L config s input) = []"
    by (simp_all add: inScope_unresolved)
next
  assume a: "normalizedDomain L config input = Some d
        \<and> (\<forall>q \<in> set (patterns s) \<union> set (antipatterns s). \<not> MatchString L q d)"
  then have "firstMatch (\<lambda>p. MatchString L p d) (patterns s) = (None, patterns s)"
    "firstMatch (\<lambda>p. MatchString L p d) (antipatterns s) = (None, antipatterns s)"
    by (simp_all add: firstMatch_none)
  with a show "matchedPattern (inScope L config s input) = []"
    "\<not> ok (inScope L config s input)"
    by (simp_all add: inScope_resolved Let_def)
next
  assume a: "normalizedDomain L config input = Some d
        \<and> patterns s = pre @ p # post
        \<and> (\<forall>q \<in> set pre. \<not> MatchString L q d) \<and> MatchString L p d"
  then have fm: "firstMatch (\<lambda>p. MatchString L p d) (patterns s) = (Some p, pre @ [p])"
    by (simp add: firstMatch_first)
  with a show "includesTried (inScope L config s input) = pre @ [p]"
    by (simp add: inScope_resolved Let_def split: prod.splits option.splits)
  assume "\<forall>q \<in> set (antipatterns s). \<not> MatchString L q d"
  then have "firstMatch (\<lambda>p. MatchString L p d) (antipatterns s) = (None, antipatterns s)"
    by (simp add: firstMatch_none)
  with a fm show "ok (inScope L config s input)"
    "matchedPattern (inScope L config s input) = String p"
    by (simp_all add: inScope_resolved Let_def)
qed

theorem matched_label_first_include_witness:
  "normalizedDomain goLib lenientConfig ''https://WWW.Example.com:8443/login''
     = Some ''www.example.com''
   \<and> ok (inScope goLib lenientConfig exampleChecker ''https://WWW.Example.com:8443/login'')
   \<and> matchedPattern (inScope goLib lenientConfig exampleChecker
         ''https://WWW.Example.com:8443/login'')
       = ''^.*'' @ [CHR 0x5C] @ ''.example'' @ [CHR 0x5C] @ ''.com$''
   \<and> length (includesTried (inScope goLib lenientConfig exampleChecker
         ''https://WWW.Example.com:8443/login'')) = 1
   \<and> matchedPattern (inScope goLib lenientConfig exampleChecker ''other.org'') = []
   \<and> matchedPattern (inScope goLib strictConfig exampleChecker ''http://'') = []"
proof -
  let ?p = "\<lparr>expr = ''^.*'' @ [CHR 0x5C] @ ''.example'' @ [CHR 0x5C] @ ''.com$'',
          prog = \<lparr>anchoredStart = True, body = wildcardExp ''*.example.com'',
                  anchoredEnd = True\<rparr>\<rparr>"
  let ?q = "\<lparr>expr = ''^www'' @ [CHR 0x5C] @ ''..*$'',
          prog = \<lparr>anchoredStart = True, body = wildcardExp ''www.*'',
                  anchoredEnd = True\<rparr>\<rparr>"
  have d: "normalizedDomain goLib lenientConfig ''https://WWW.Example.com:8443/login''
     = Some ''www.example.com''" by code_simp
  have ps: "patterns exampleChecker = [] @ ?p # [?q]" by (simp add: exampleChecker_def)
  have m: "MatchString goLib ?p ''www.example.com''" by code_simp
  have x: "\<forall>q \<in> set (antipatterns exampleChecker). \<not> MatchString goLib q ''www.example.com''"
    by code_simp
  have d2: "normalizedDomain goLib lenientConfig ''other.org'' = Some ''other.org''" by code_simp
  have n2: "\<forall>q \<in> set (patterns exampleChecker) \<union> set (antipatterns exampleChecker).
      \<not> MatchString goLib q ''other.org''" by code_simp
  have d3: "normalizedDomain goLib strictConfig ''http://'' = None" by code_simp
  note th = matched_label_first_include[of goLib _ _ exampleChecker]
  from th[of lenientConfig "''https://WWW.Example.com:8443/login''" "''www.example.com''" "[]" ?p "[?q]"]
     d ps m x
  have a: "ok (inScope goLib lenientConfig exampleChecker ''https://WWW.Example.com:8443/login'')
     \<and> matchedPattern (inScope goLib lenientConfig exampleChecker
         ''https://WWW.Example.com:8443/login'') = String ?p
     \<and> includesTried (inScope goLib lenientConfig exampleChecker
         ''https://WWW.Example.com:8443/login'') = [?p]"
    by simp
  from th[of lenientConfig "''other.org''" "''other.org''"] d2 n2
  have b: "matchedPattern (inScope goLib lenientConfig exampleChecker ''other.org'') = []"
    by blast
  from th[of strictConfig "''http://''"] d3
  have c: "matchedPattern (inScope goLib strictConfig exampleChecker ''http://'') = []"
    by blast
  from a b c d show ?thesis by (simp add: String_def)
qed

text \<open>
  Claim C3, as the code has it. With the strict flag set, a URL-like input whose hostname
  cannot be extracted makes \<open>inScope\<close> return \<^verbatim>\<open>false\<close> and the empty label at once: the
  total is counted, no include pattern and no exclude pattern is evaluated, and the
  patterns and the in-scope counter are as before.
\<close>

theorem strict_failure_returns_early:
  assumes "isURL L input" and "isl (getHostname L input)" and "strict config"
  shows "ok (inScope L config s input) = False
       \<and> matchedPattern (inScope L config s input) = []
       \<and> includesTried (inScope L config s input) = []
       \<and> excludesTried (inScope L config s input) = []
       \<and> stats_total (stats (checker (inScope L config s input))) = stats_total (stats s) + 1
       \<and> stats_inScope (stats (checker (inScope L config s input))) = stats_inScope (stats s)
       \<and> patterns (checker (inScope L config s input)) = patterns s
       \<and> antipatterns (checker (inScope L config s input)) = antipatterns s"
proof -
  from assms have "normalizedDomain L config input = None"
    by (auto simp: normalizedDomain_def isl_def)
  then show ?thesis
    by (simp add: inScope_unresolved bumpTotal_def)
qed

lemma strict_failure_example:
  "isURL goLib ''http://'' \<and> isl (getHostname goLib ''http://'') \<and> strict strictConfig"
  by code_simp

theorem strict_failure_returns_early_witness:
  "ok (inScope goLib strictConfig exampleChecker ''http://'') = False
   \<and> matchedPattern (inScope goLib strictConfig exampleChecker ''http://'') = []
   \<and> includesTried (inScope goLib strictConfig exampleChecker ''http://'') = []
   \<and> excludesTried (inScope goLib strictConfig exampleChecker ''http://'') = []
   \<and> stats_total (stats (checker (inScope goLib strictConfig exampleChecker ''http://''))) = 1"
proof -
  have a: "isURL goLib ''http://''" "isl (getHostname goLib ''http://'')" "strict strictConfig"
    using strict_failure_example by simp_all
  have "stats_total (stats exampleChecker) = 0" by (simp add: exampleChecker_def)
  with strict_failure_returns_early[OF a, of exampleChecker] show ?thesis by simp
qed


theorem strict_failure_skips_excludes_counterexample:
  "isURL goLib ''http://'' \<and> isl (getHostname goLib ''http://'') \<and> strict strictConfig
   \<and> antipatterns exampleChecker \<noteq> []
   \<and> excludesTried (inScope goLib strictConfig exampleChecker ''http://'') = []
   \<and> stats_outScope (stats (checker (inScope goLib strictConfig exampleChecker ''http://'')))
       = stats_outScope (stats exampleChecker)"
  by code_simp

subsection \<open>Statistics\<close>

lemma inScope_counts_resolved:
  assumes "normalizedDomain L config input = Some d"
  shows "stats_total (stats (checker (inScope L config s input))) = stats_total (stats s) + 1
     \<and> stats_inScope (stats (checker (inScope L config s input)))
         = stats_inScope (stats s) + (if ok (inScope L config s input) then 1 else 0)
     \<and> stats_outScope (stats (checker (inScope L config s input)))
         = stats_outScope (stats s) + (if ok (inScope L config s input) then 0 else 1)"
  by (simp add: inScope_resolved[OF assms] Let_def bumpTotal_def bumpInScope_def bumpOutScope_def
      split: prod.splits option.splits)

text \<open>
  Claim C2 at the input that breaks it. The specification's own example of a strict-mode
  failure is URL-like and its hostname cannot be extracted; with the strict flag set the
  call counts it in the total and in neither of the other counters, so the total is no
  longer the sum of the two.
\<close>

theorem strict_failure_counted_in_total_only:
  "isURL goLib ''not a valid url???'' \<and> isl (getHostname goLib ''not a valid url???'')
   \<and> stats_total (stats (checker
        (inScope goLib strictConfig exampleChecker ''not a valid url???''))) = 1
   \<and> stats_inScope (stats (checker
        (inScope goLib strictConfig exampleChecker ''not a valid url???''))) = 0
   \<and> stats_outScope (stats (checker
        (inScope goLib strictConfig exampleChecker ''not a valid url???''))) = 0"
  by code_simp

subsection \<open>Construction of the checker\<close>

lemma scanLines_no_includes:
  assumes "\<forall>text \<in> set ls. TrimSpace text = [] \<or> HasPrefix (TrimSpace text) ''#''
             \<or> HasPrefix (TrimSpace text) ''!''"
  shows "case scanLines L n ls s of
           Inl err \<Rightarrow> (\<exists>k l m. err = InvalidPattern k l m)
         | Inr s' \<Rightarrow> patterns s' = patterns s"
  using assms
proof (induction ls arbitrary: n s)
  case Nil
  then show ?case by simp
next
  case (Cons ln ls)
  then have rest: "\<forall>text \<in> set ls. TrimSpace text = [] \<or> HasPrefix (TrimSpace text) ''#''
             \<or> HasPrefix (TrimSpace text) ''!''"
    and this_line: "TrimSpace ln = [] \<or> HasPrefix (TrimSpace ln) ''#''
             \<or> HasPrefix (TrimSpace ln) ''!''" by simp_all
  note IH = Cons.IH[OF rest]
  show ?case
  proof (cases "TrimSpace ln = [] \<or> HasPrefix (TrimSpace ln) ''#''")
    case True
    then show ?thesis using IH[where n = "n + 1" and s = s] by (simp add: Let_def)
  next
    case False
    with this_line have anti: "HasPrefix (TrimSpace ln) ''!''" by simp
    show ?thesis
    proof (cases "Compile L (convertWildcardToRegex (TrimSpace (drop 1 (TrimSpace ln))))")
      case (Inl err)
      with False anti show ?thesis by (simp add: Let_def)
    next
      case (Inr re)
      with False anti show ?thesis
        using IH[where n = "n + 1" and s = "s\<lparr>antipatterns := antipatterns s @ [re]\<rparr>"]
        by (simp add: Let_def split: sum.splits)
    qed
  qed
qed

text \<open>
  Claim C6. When every line of the scope file is blank, a comment or an exclude line,
  \<open>newScopeChecker\<close> returns an error and no checker. Unless reading the file itself
  failed, it is a configuration error: no scope patterns found, or an exclude line that
  does not compile.
\<close>

theorem newScopeChecker_without_includes:
  assumes "\<forall>text \<in> set (rd_lines r). TrimSpace text = [] \<or> HasPrefix (TrimSpace text) ''#''
             \<or> HasPrefix (TrimSpace text) ''!''"
  shows "\<exists>err. newScopeChecker L r = Inl err
           \<and> (rd_err r = None \<longrightarrow>
                err = NoScopePatterns \<or> (\<exists>k l m. err = InvalidPattern k l m))"
  using scanLines_no_includes[OF assms, where L = L and n = 0 and s =
      "\<lparr>patterns = [], antipatterns = [],
        stats = \<lparr>stats_total = 0, stats_inScope = 0, stats_outScope = 0\<rparr>\<rparr>"]
  by (auto simp: newScopeChecker_def split: sum.splits option.splits)

theorem newScopeChecker_without_includes_witness:
  "newScopeChecker goLib \<lparr>rd_lines = [''# exclusions only'', ''!evil.com''], rd_err = None\<rparr>
     = Inl NoScopePatterns"
proof -
  let ?r = "\<lparr>rd_lines = [''# exclusions only'', ''!evil.com''], rd_err = None\<rparr>"
  have h: "\<forall>text \<in> set (rd_lines ?r). TrimSpace text = [] \<or> HasPrefix (TrimSpace text) ''#''
             \<or> HasPrefix (TrimSpace text) ''!''"
    by code_simp
  from newScopeChecker_without_includes[OF h, of goLib] obtain err where
    e: "newScopeChecker goLib ?r = Inl err"
       "err = NoScopePatterns \<or> (\<exists>k l m. err = InvalidPattern k l m)"
    by auto
  have "newScopeChecker goLib ?r \<noteq> Inl (InvalidPattern k l m)" for k l m
    by code_simp
  with e show ?thesis by auto
qed

subsection \<open>The regexp model matches what its expressions denote\<close>

lemma lang_alt: "lang (alt r s) = lang r \<union> lang s"
  by (induction r s rule: alt.induct) auto

lemma lang_seq: "lang (seq r s) = lang (Seq r s)"
  by (induction r s rule: seq.induct) auto

lemma nullable_iff: "nullable r \<longleftrightarrow> [] \<in> lang r"
  by (induction r) (auto intro: star.intros)

lemma star_cons_split:
  assumes "x \<in> star A" and "x = c # w"
  shows "\<exists>u v. w = u @ v \<and> c # u \<in> A \<and> v \<in> star A"
  using assms
proof (induction arbitrary: w rule: star.induct)
  case star_nil
  then show ?case by simp
next
  case (star_app u v)
  show ?case
  proof (cases u)
    case Nil
    with star_app show ?thesis by simp
  next
    case (Cons a u')
    with star_app.prems have "a = c" "w = u' @ v" by simp_all
    with Cons star_app.hyps show ?thesis by blast
  qed
qed

lemma star_cons_iff:
  "c # w \<in> star A \<longleftrightarrow> (\<exists>u v. w = u @ v \<and> c # u \<in> A \<and> v \<in> star A)"
proof
  assume "c # w \<in> star A"
  then show "\<exists>u v. w = u @ v \<and> c # u \<in> A \<and> v \<in> star A"
    using star_cons_split by blast
next
  assume "\<exists>u v. w = u @ v \<and> c # u \<in> A \<and> v \<in> star A"
  then obtain u v where "w = u @ v" "c # u \<in> A" "v \<in> star A" by blast
  then show "c # w \<in> star A" using star_app[of "c # u" A v] by simp
qed

lemma lang_deriv: "lang (deriv a r) = {w. a # w \<in> lang r}"
proof (induction r)
  case (Seq r s)
  then show ?case
    by (auto simp: lang_alt lang_seq nullable_iff Cons_eq_append_conv)
next
  case (Star r)
  then show ?case by (auto simp: lang_seq star_cons_iff)
qed (auto simp: lang_alt)

lemma accepts_iff: "accepts r w \<longleftrightarrow> w \<in> lang r"
  by (induction w arbitrary: r) (simp_all add: nullable_iff lang_deriv)

lemma set_splits:
  "set (splits s) =
     {(take i s, take (j - i) (drop i s), drop j s) | i j. i \<le> j \<and> j \<le> length s}"
proof -
  have "set (splits s) =
      (\<Union>i \<in> {0..<Suc (length s)}.
         (\<lambda>j. (take i s, take (j - i) (drop i s), drop j s)) ` {i..<Suc (length s)})"
    unfolding splits_def by (simp del: upt_Suc)
  also have "\<dots> =
     {(take i s, take (j - i) (drop i s), drop j s) | i j. i \<le> j \<and> j \<le> length s}"
    (is "?A = ?B")
  proof (intro set_eqI iffI)
    fix x assume "x \<in> ?A"
    then obtain i j where "i \<le> j" "j < Suc (length s)"
      "x = (take i s, take (j - i) (drop i s), drop j s)" by auto
    then show "x \<in> ?B" by (intro CollectI exI[of _ i] exI[of _ j]) simp
  next
    fix x assume "x \<in> ?B"
    then obtain i j where ij: "i \<le> j" "j \<le> length s"
      "x = (take i s, take (j - i) (drop i s), drop j s)" by blast
    then have "i \<in> {0..<Suc (length s)}" "j \<in> {i..<Suc (length s)}" by auto
    then show "x \<in> ?A" using ij(3) by blast
  qed
  finally show ?thesis .
qed

lemma splits_iff: "(u, w, v) \<in> set (splits s) \<longleftrightarrow> s = u @ w @ v"
proof
  assume "(u, w, v) \<in> set (splits s)"
  then obtain i j where "i \<le> j" "j \<le> length s"
    "u = take i s" "w = take (j - i) (drop i s)" "v = drop j s"
    unfolding set_splits by blast
  then have "u @ w @ v = take i s @ (take (j - i) (drop i s) @ drop (j - i) (drop i s))"
    by simp
  then show "s = u @ w @ v" by (simp only: append_take_drop_id)
next
  assume s: "s = u @ w @ v"
  have "(take (length u) s, take (length u + length w - length u) (drop (length u) s),
         drop (length u + length w) s) \<in> set (splits s)"
    unfolding set_splits using s by (intro CollectI exI[of _ "length u"] exI[of _ "length u + length w"]) simp
  then show "(u, w, v) \<in> set (splits s)" using s by simp
qed

lemma MatchString_iff:
  "MatchString L re s \<longleftrightarrow> (\<exists>u w v. s = u @ w @ v \<and> regexp_Matches L (prog re) u w v)"
proof -
  have "MatchString L re s \<longleftrightarrow>
      (\<exists>x \<in> set (splits s). case x of (u, w, v) \<Rightarrow> regexp_Matches L (prog re) u w v)"
    by (simp add: MatchString_def list_ex_iff)
  also have "\<dots> \<longleftrightarrow> (\<exists>u w v. (u, w, v) \<in> set (splits s) \<and> regexp_Matches L (prog re) u w v)"
    by (auto simp del: splits_iff)
  finally show ?thesis by (simp add: splits_iff)
qed

subsection \<open>Pattern compilation\<close>

lemma ReplaceAll_single:
  "ReplaceAll s [a] new = concat (map (\<lambda>c. if c = a then new else [c]) s)"
  by (induction s) (simp_all add: HasPrefix_def)

lemma ContainsAny_iff: "ContainsAny s chars \<longleftrightarrow> (\<exists>c \<in> set s. c \<in> set chars)"
  by (simp add: ContainsAny_def list_ex_iff)

lemma wildcard_two_passes:
  "concat (map (\<lambda>c. if c = CHR ''*'' then ''.*'' else [c])
      (concat (map (\<lambda>c. if c = CHR ''.'' then [CHR 0x5C, CHR ''.''] else [c]) line)))
   = concat (map wildcardChar line)"
  by (induction line) (simp_all add: wildcardChar_def)

lemma set_wildcard:
  "set (concat (map wildcardChar line)) \<subseteq> set line \<union> {CHR 0x5C, CHR ''.'', CHR ''*''}"
  by (induction line) (auto simp: wildcardChar_def split: if_splits)

lemma HasSuffix_single: "HasSuffix s [c] \<longleftrightarrow> s \<noteq> [] \<and> last s = c"
proof (cases s rule: rev_cases)
  case Nil then show ?thesis by (simp add: HasSuffix_def)
next
  case (snoc ys y) then show ?thesis by (auto simp: HasSuffix_def)
qed

lemma convertWildcardToRegex_wildcard:
  assumes "\<not> ContainsAny line regexMeta"
  shows "convertWildcardToRegex line = ''^'' @ concat (map wildcardChar line) @ ''$''"
proof -
  let ?p = "concat (map wildcardChar line)"
  from assms have no: "CHR ''^'' \<notin> set line" "CHR ''$'' \<notin> set line"
    by (auto simp: ContainsAny_iff regexMeta_def)
  with set_wildcard[of line] have np: "CHR ''^'' \<notin> set ?p" "CHR ''$'' \<notin> set ?p" by auto
  have a: "\<not> HasPrefix ?p ''^''"
    unfolding HasPrefix_single using np(1) by (metis hd_in_set)
  have "last (CHR ''^'' # ?p) \<noteq> CHR ''$''"
  proof (cases "?p = []")
    case True then show ?thesis by simp
  next
    case False
    then have "last (CHR ''^'' # ?p) = last ?p" by (rule last_ConsR)
    with False np(2) show ?thesis by (metis last_in_set)
  qed
  then have b: "\<not> HasSuffix (''^'' @ ?p) ''$''"
    unfolding HasSuffix_single by simp
  from a b show ?thesis
    using assms
    by (simp add: convertWildcardToRegex_def Let_def ReplaceAll_single wildcard_two_passes)
qed

text \<open>
  Claim C4. A line that holds one of the characters \<^verbatim>\<open>^ $ [ ] { } ( ) + ? |\<close> or a
  backslash is returned as it is. In every other line each \<^verbatim>\<open>.\<close> becomes a backslash
  and a dot, each \<^verbatim>\<open>*\<close> becomes \<^verbatim>\<open>.*\<close>, and the result stands between \<^verbatim>\<open>^\<close> and
  \<^verbatim>\<open>$\<close>. Compiled, the wildcard pattern \<^verbatim>\<open>*.example.com\<close> accepts \<^verbatim>\<open>foo.example.com\<close>
  and does not accept \<^verbatim>\<open>example.com\<close>.
\<close>

theorem convertWildcardToRegex_spec:
  "(ContainsAny line regexMeta \<longleftrightarrow>
      (\<exists>c \<in> set line. c \<in> set (''^$[]{}()+?|'' @ [CHR 0x5C])))
   \<and> (ContainsAny line regexMeta \<longrightarrow> convertWildcardToRegex line = line)
   \<and> (\<not> ContainsAny line regexMeta \<longrightarrow>
        convertWildcardToRegex line = ''^'' @ concat (map wildcardChar line) @ ''$'')
   \<and> (\<exists>re. Compile goLib (convertWildcardToRegex ''*.example.com'') = Inr re
          \<and> MatchString goLib re ''foo.example.com''
          \<and> \<not> MatchString goLib re ''example.com'')"
proof (intro conjI impI)
  show "ContainsAny line regexMeta \<longleftrightarrow>
      (\<exists>c \<in> set line. c \<in> set (''^$[]{}()+?|'' @ [CHR 0x5C]))"
    by (simp only: ContainsAny_iff regexMeta_def)
  show "convertWildcardToRegex line = line" if "ContainsAny line regexMeta"
    using that by (simp add: convertWildcardToRegex_def)
  show "convertWildcardToRegex line = ''^'' @ concat (map wildcardChar line) @ ''$''"
    if "\<not> ContainsAny line regexMeta"
    using that by (rule convertWildcardToRegex_wildcard)
  let ?re = "\<lparr>expr = ''^.*'' @ [CHR 0x5C] @ ''.example'' @ [CHR 0x5C] @ ''.com$'',
          prog = \<lparr>anchoredStart = True, body = wildcardExp ''*.example.com'',
                  anchoredEnd = True\<rparr>\<rparr>"
  have "Compile goLib (convertWildcardToRegex ''*.example.com'') = Inr ?re" by code_simp
  moreover have "MatchString goLib ?re ''foo.example.com''" by code_simp
  moreover have "\<not> MatchString goLib ?re ''example.com''" by code_simp
  ultimately show "\<exists>re. Compile goLib (convertWildcardToRegex ''*.example.com'') = Inr re
          \<and> MatchString goLib re ''foo.example.com''
          \<and> \<not> MatchString goLib re ''example.com''" by blast
qed

theorem convertWildcardToRegex_spec_witness:
  "convertWildcardToRegex (''example'' @ [CHR 0x5C] @ ''.com'') = ''example'' @ [CHR 0x5C] @ ''.com''
   \<and> convertWildcardToRegex ''*.example.com''
       = ''^.*'' @ [CHR 0x5C] @ ''.example'' @ [CHR 0x5C] @ ''.com$''"
proof -
  have m: "ContainsAny (''example'' @ [CHR 0x5C] @ ''.com'') regexMeta" by code_simp
  have w: "\<not> ContainsAny ''*.example.com'' regexMeta" by code_simp
  have c: "concat (map wildcardChar ''*.example.com'')
     = ''.*'' @ [CHR 0x5C] @ ''.example'' @ [CHR 0x5C] @ ''.com''" by code_simp
  from convertWildcardToRegex_spec[of "''example'' @ [CHR 0x5C] @ ''.com''"] m
  have a: "convertWildcardToRegex (''example'' @ [CHR 0x5C] @ ''.com'')
      = ''example'' @ [CHR 0x5C] @ ''.com''" by blast
  from convertWildcardToRegex_spec[of "''*.example.com''"] w
  have "convertWildcardToRegex ''*.example.com''
      = ''^'' @ concat (map wildcardChar ''*.example.com'') @ ''$''" by blast
  with a show ?thesis unfolding c by simp
qed

subsection \<open>Wildcard patterns and pass-through patterns\<close>

lemma wildcard_head:
  assumes "case rest of [] \<Rightarrow> True | d # _ \<Rightarrow> d \<notin> set ''*+?''"
      and "\<not> ContainsAny line regexMeta"
  shows "(case concat (map wildcardChar line) @ rest of
            [] \<Rightarrow> False | d # _ \<Rightarrow> d \<in> set ''*+?'') = False"
proof (cases line)
  case Nil
  with assms(1) show ?thesis by (cases rest) auto
next
  case (Cons c cs)
  with assms(2) have "c \<notin> set regexMeta" by (simp add: ContainsAny_iff)
  then show ?thesis
    unfolding Cons by (auto simp: wildcardChar_def regexMeta_def)
qed

lemma lexRe_wildcard:
  assumes "\<not> ContainsAny line regexMeta"
      and "case rest of [] \<Rightarrow> True | d # _ \<Rightarrow> d \<notin> set ''*+?''"
  shows "lexRe (concat (map wildcardChar line) @ rest)
         = map_option (\<lambda>ts. concat (map wildcardToks line) @ ts) (lexRe rest)"
  using assms(1)
proof (induction line)
  case Nil
  show ?case by (simp add: option.map_ident)
next
  case (Cons c line)
  let ?tail = "concat (map wildcardChar line) @ rest"
  from Cons.prems have tl: "\<not> ContainsAny line regexMeta"
    by (simp add: ContainsAny_iff)
  with Cons.IH
  have IH: "lexRe ?tail = map_option (\<lambda>ts. concat (map wildcardToks line) @ ts) (lexRe rest)"
    by simp
  from Cons.prems have c: "c \<notin> set regexMeta" by (simp add: ContainsAny_iff)
  note hd = wildcard_head[OF assms(2) tl]
  have step: "lexRe (wildcardChar c @ ?tail)
      = map_option (\<lambda>ts. wildcardToks c @ ts) (lexRe ?tail)"
  proof -
    consider "c = CHR ''.''" | "c = CHR ''*''" | "c \<noteq> CHR ''.''" "c \<noteq> CHR ''*''" by blast
    then show ?thesis
    proof cases
      case 1
      then show ?thesis by (simp add: wildcardChar_def wildcardToks_def isAlnum_def)
    next
      case 2
      then show ?thesis
        by (simp add: wildcardChar_def wildcardToks_def option.map_comp comp_def)
    next
      case 3
      have "lexRe (c # ?tail) = map_option ((#) (TLit c)) (lexRe ?tail)"
        using 3 c hd by (simp add: regexMeta_def)
      with 3 show ?thesis by (simp add: wildcardChar_def wildcardToks_def)
    qed
  qed
  show ?case
    using step by (simp add: IH option.map_comp comp_def)
qed

lemma wildcardToks_head:
  "(case concat (map wildcardToks line) of [] \<Rightarrow> False | v # _ \<Rightarrow> isRep v) = False"
  by (cases line) (simp_all add: wildcardToks_def)

lemma build_wildcard: "build (concat (map wildcardToks line)) = Some (wildcardExp line)"
proof (induction line)
  case Nil
  show ?case by (simp add: wildcardExp_def)
next
  case (Cons c line)
  let ?rest = "concat (map wildcardToks line)"
  note IH = \<open>build ?rest = Some (wildcardExp line)\<close>
  show ?case
  proof (cases "c = CHR ''*''")
    case True
    have "wildcardToks c = [TDot, TStar]" using True by (simp add: wildcardToks_def)
    moreover have "wildcardExp (c # line) = Seq (Star Dot) (wildcardExp line)"
      using True by (simp add: wildcardExp_def)
    ultimately show ?thesis
      using IH wildcardToks_head[of line] by simp
  next
    case False
    have tk: "wildcardToks c = [TLit c]" using False by (simp add: wildcardToks_def)
    have ex: "wildcardExp (c # line) = Seq (Lit c) (wildcardExp line)"
      using False by (simp add: wildcardExp_def)
    show ?thesis
    proof (cases ?rest)
      case Nil
      with IH have one: "wildcardExp line = One" by simp
      have "build (TLit c # ?rest) = Some (Seq (Lit c) One)"
        unfolding Nil by simp
      then show ?thesis by (simp add: tk ex one del: build.simps)
    next
      case (Cons u ts)
      with wildcardToks_head[of line] have "\<not> isRep u" by simp
      with Cons IH show ?thesis by (simp add: tk ex)
    qed
  qed
qed

lemma frag_Compile_wildcard:
  assumes "\<not> ContainsAny line regexMeta"
  shows "frag_Compile (convertWildcardToRegex line)
         = (if validUTF8 (convertWildcardToRegex line)
            then Inr \<lparr>anchoredStart = True, body = wildcardExp line, anchoredEnd = True\<rparr>
            else Inl ''invalid UTF-8'')"
proof -
  have "lexRe (concat (map wildcardChar line) @ ''$'')
        = Some (concat (map wildcardToks line) @ [TEol])"
    by (simp add: lexRe_wildcard[OF assms])
  then have "lexRe (convertWildcardToRegex line)
        = Some (TBol # concat (map wildcardToks line) @ [TEol])"
    by (simp add: convertWildcardToRegex_wildcard[OF assms])
  then show ?thesis
    by (simp add: frag_Compile_def Let_def build_wildcard)
qed

lemma anchored_whole:
  assumes "anchoredStart p" and "anchoredEnd p"
  shows "frag_Matches p u w v \<longleftrightarrow> u = [] \<and> v = [] \<and> w \<in> lang (body p)"
  using assms by (auto simp: frag_Matches_def accepts_iff)

text \<open>
  Claim C9. A line that holds a regex metacharacter is compiled as it stands, whatever
  the library: no anchor is added, the matcher is the library's expression for the line
  itself, and it accepts exactly the domains \<open>u @ w @ v\<close> that contain a match \<open>w\<close> of that
  expression. A wildcard line, in contrast, is put between \<^verbatim>\<open>^\<close> and \<^verbatim>\<open>$\<close>; where it
  compiles (it does unless it is not valid UTF-8), every match is the whole subject, so
  it accepts exactly the domains that match it as a whole. The scope file line
  \<^verbatim>\<open>example\.com\<close> puts \<^verbatim>\<open>badexample.com.evil.net\<close> in scope; the wildcard line
  \<^verbatim>\<open>example.com\<close> does not. What the anchors and a wildcard pattern match is read off the
  regexp model.
\<close>

theorem passthrough_patterns_match_substrings:
  "(ContainsAny line regexMeta \<longrightarrow>
       convertWildcardToRegex line = line
     \<and> (\<forall>m. regexp_Compile L line = Inr m \<longrightarrow>
           Compile L (convertWildcardToRegex line) = Inr \<lparr>expr = line, prog = m\<rparr>
         \<and> (\<forall>d. MatchString L \<lparr>expr = line, prog = m\<rparr> d \<longleftrightarrow>
               (\<exists>u w v. d = u @ w @ v \<and> regexp_Matches L m u w v))))
   \<and> (\<not> ContainsAny line regexMeta \<longrightarrow>
       convertWildcardToRegex line = ''^'' @ concat (map wildcardChar line) @ ''$''
     \<and> (case Compile goLib (convertWildcardToRegex line) of
          Inl err \<Rightarrow> \<not> validUTF8 (convertWildcardToRegex line)
        | Inr re \<Rightarrow>
            (\<forall>u w v. regexp_Matches goLib (prog re) u w v \<longrightarrow> u = [] \<and> v = [])
          \<and> (\<forall>d. MatchString goLib re d \<longleftrightarrow> d \<in> lang (wildcardExp line))))
   \<and> (case newScopeChecker goLib
              \<lparr>rd_lines = [''example'' @ [CHR 0x5C] @ ''.com''], rd_err = None\<rparr> of
         Inl err \<Rightarrow> False
       | Inr s \<Rightarrow> ok (inScope goLib lenientConfig s ''badexample.com.evil.net''))
   \<and> (case newScopeChecker goLib \<lparr>rd_lines = [''example.com''], rd_err = None\<rparr> of
         Inl err \<Rightarrow> False
       | Inr s \<Rightarrow> \<not> ok (inScope goLib lenientConfig s ''badexample.com.evil.net''))"
proof (intro conjI impI allI)
  assume m: "ContainsAny line regexMeta"
  then show same: "convertWildcardToRegex line = line"
    by (simp add: convertWildcardToRegex_def)
  fix m assume c: "regexp_Compile L line = Inr m"
  then show "Compile L (convertWildcardToRegex line) = Inr \<lparr>expr = line, prog = m\<rparr>"
    by (simp add: same Compile_def)
  fix d
  show "MatchString L \<lparr>expr = line, prog = m\<rparr> d \<longleftrightarrow>
        (\<exists>u w v. d = u @ w @ v \<and> regexp_Matches L m u w v)"
    by (simp add: MatchString_iff)
next
  assume w: "\<not> ContainsAny line regexMeta"
  then show "convertWildcardToRegex line = ''^'' @ concat (map wildcardChar line) @ ''$''"
    by (rule convertWildcardToRegex_wildcard)
  let ?p = "\<lparr>anchoredStart = True, body = wildcardExp line, anchoredEnd = True\<rparr>"
  let ?re = "\<lparr>expr = convertWildcardToRegex line, prog = ?p\<rparr>"
  show "case Compile goLib (convertWildcardToRegex line) of
          Inl err \<Rightarrow> \<not> validUTF8 (convertWildcardToRegex line)
        | Inr re \<Rightarrow>
            (\<forall>u w v. regexp_Matches goLib (prog re) u w v \<longrightarrow> u = [] \<and> v = [])
          \<and> (\<forall>d. MatchString goLib re d \<longleftrightarrow> d \<in> lang (wildcardExp line))"
  proof (cases "validUTF8 (convertWildcardToRegex line)")
    case False
    with w have "Compile goLib (convertWildcardToRegex line) = Inl ''invalid UTF-8''"
      by (simp add: Compile_def goLib_def frag_Compile_wildcard)
    with False show ?thesis by simp
  next
    case True
    with w have c: "Compile goLib (convertWildcardToRegex line) = Inr ?re"
      by (simp add: Compile_def goLib_def frag_Compile_wildcard)
    have a: "regexp_Matches goLib ?p u w v \<longleftrightarrow> u = [] \<and> v = [] \<and> w \<in> lang (wildcardExp line)"
      for u w v
      using anchored_whole[of ?p u w v] by (simp add: goLib_def)
    have "MatchString goLib ?re d \<longleftrightarrow> d \<in> lang (wildcardExp line)" for d
      by (simp add: MatchString_iff a)
    with a show ?thesis unfolding c by simp
  qed
next
  show "case newScopeChecker goLib
              \<lparr>rd_lines = [''example'' @ [CHR 0x5C] @ ''.com''], rd_err = None\<rparr> of
         Inl err \<Rightarrow> False
       | Inr s \<Rightarrow> ok (inScope goLib lenientConfig s ''badexample.com.evil.net'')"
    by code_simp
  show "case newScopeChecker goLib \<lparr>rd_lines = [''example.com''], rd_err = None\<rparr> of
         Inl err \<Rightarrow> False
       | Inr s \<Rightarrow> \<not> ok (inScope goLib lenientConfig s ''badexample.com.evil.net'')"
    by code_simp
qed

theorem passthrough_patterns_match_substrings_witness:
  "MatchString goLib
     \<lparr>expr = ''example'' @ [CHR 0x5C] @ ''.com'',
      prog = \<lparr>anchoredStart = False, body = wildcardExp ''example.com'', anchoredEnd = False\<rparr>\<rparr>
     (''bad'' @ ''example.com'' @ ''.evil.net'')
   \<and> (\<exists>re. Compile goLib (convertWildcardToRegex ''example.com'') = Inr re
         \<and> \<not> MatchString goLib re ''badexample.com.evil.net''
         \<and> MatchString goLib re ''example.com'')"
proof -
  let ?line = "''example'' @ [CHR 0x5C] @ ''.com''"
  let ?p = "\<lparr>anchoredStart = False, body = wildcardExp ''example.com'', anchoredEnd = False\<rparr>"
  have m: "ContainsAny ?line regexMeta" by code_simp
  have c: "regexp_Compile goLib ?line = Inr ?p" by code_simp
  have w: "regexp_Matches goLib ?p ''bad'' ''example.com'' ''.evil.net''" by code_simp
  from passthrough_patterns_match_substrings[of ?line goLib] m c
  have "MatchString goLib \<lparr>expr = ?line, prog = ?p\<rparr> d \<longleftrightarrow>
        (\<exists>u w v. d = u @ w @ v \<and> regexp_Matches goLib ?p u w v)" for d
    by blast
  then have a: "MatchString goLib \<lparr>expr = ?line, prog = ?p\<rparr>
      (''bad'' @ ''example.com'' @ ''.evil.net'')"
    using w by (simp del: append.simps) blast
  have n: "\<not> ContainsAny ''example.com'' regexMeta" by code_simp
  let ?re = "\<lparr>expr = ''^example'' @ [CHR 0x5C] @ ''.com$'',
      prog = \<lparr>anchoredStart = True, body = wildcardExp ''example.com'', anchoredEnd = True\<rparr>\<rparr>"
  have cw: "Compile goLib (convertWildcardToRegex ''example.com'') = Inr ?re" by code_simp
  from passthrough_patterns_match_substrings[of "''example.com''" goLib] n
  have "\<And>d. MatchString goLib ?re d \<longleftrightarrow> d \<in> lang (wildcardExp ''example.com'')"
    unfolding cw by simp
  moreover have "\<not> accepts (wildcardExp ''example.com'') ''badexample.com.evil.net''"
    "accepts (wildcardExp ''example.com'') ''example.com''" by code_simp+
  ultimately have "\<not> MatchString goLib ?re ''badexample.com.evil.net''"
    "MatchString goLib ?re ''example.com''"
    by (simp_all add: accepts_iff)
  with cw a show ?thesis by blast
qed

subsection \<open>URL-likeness and hostname extraction\<close>

lemma of_char_lowerByte_upper:
  assumes "65 \<le> (of_char c :: nat)" "(of_char c :: nat) \<le> 90"
  shows "(of_char (lowerByte c) :: nat) = of_char c + 32"
  using assms by (simp add: lowerByte_def of_char_of)

lemma lowerByte_nonletter:
  assumes "\<not> (65 \<le> (of_char x :: nat) \<and> (of_char x :: nat) \<le> 90)"
      and "\<not> (97 \<le> (of_char x :: nat) \<and> (of_char x :: nat) \<le> 122)"
  shows "lowerByte c = x \<longleftrightarrow> c = x"
proof (cases "65 \<le> (of_char c :: nat) \<and> (of_char c :: nat) \<le> 90")
  case True
  then have "(of_char (lowerByte c) :: nat) = of_char c + 32"
    by (simp add: of_char_lowerByte_upper)
  with True assms have "lowerByte c \<noteq> x" "c \<noteq> x" by auto
  then show ?thesis by simp
next
  case False
  then show ?thesis by (auto simp: lowerByte_def Let_def)
qed

text \<open>No byte of a white space character is a letter of ASCII.\<close>

lemma whiteSpace_nonletter:
  assumes "sp \<in> set whiteSpace" and "x \<in> set sp"
  shows "lowerByte c = x \<longleftrightarrow> c = x"
proof -
  have "list_all (list_all (\<lambda>x. \<not> (65 \<le> (of_char x :: nat) \<and> (of_char x :: nat) \<le> 90)
            \<and> \<not> (97 \<le> (of_char x :: nat) \<and> (of_char x :: nat) \<le> 122))) whiteSpace"
    by code_simp
  with assms
  have "\<not> (65 \<le> (of_char x :: nat) \<and> (of_char x :: nat) \<le> 90)
      \<and> \<not> (97 \<le> (of_char x :: nat) \<and> (of_char x :: nat) \<le> 122)"
    unfolding list_all_iff by blast
  then show ?thesis by (intro lowerByte_nonletter) auto
qed

lemma map_lowerByte_eq:
  assumes "\<forall>x \<in> set p. \<forall>c. lowerByte c = x \<longleftrightarrow> c = x"
  shows "map lowerByte xs = p \<longleftrightarrow> xs = p"
  using assms
proof (induction xs arbitrary: p)
  case Nil
  show ?case by auto
next
  case (Cons a xs)
  show ?case
  proof (cases p)
    case Nil
    then show ?thesis by simp
  next
    case (Cons b q)
    with Cons.prems have "lowerByte a = b \<longleftrightarrow> a = b"
      and "\<forall>x \<in> set q. \<forall>c. lowerByte c = x \<longleftrightarrow> c = x" by auto
    with Cons.IH[of q] Cons show ?thesis by auto
  qed
qed

lemma HasPrefix_lower_space:
  assumes "sp \<in> set whiteSpace"
  shows "HasPrefix (map lowerByte s) sp \<longleftrightarrow> HasPrefix s sp"
proof -
  have "\<forall>x \<in> set sp. \<forall>c. lowerByte c = x \<longleftrightarrow> c = x"
    using whiteSpace_nonletter[OF assms] by blast
  from map_lowerByte_eq[OF this, of "take (length sp) s"]
  show ?thesis by (simp add: HasPrefix_def take_map)
qed

lemma HasSuffix_lower_space:
  assumes "sp \<in> set whiteSpace"
  shows "HasSuffix (map lowerByte s) sp \<longleftrightarrow> HasSuffix s sp"
proof -
  have "\<forall>x \<in> set sp. \<forall>c. lowerByte c = x \<longleftrightarrow> c = x"
    using whiteSpace_nonletter[OF assms] by blast
  from map_lowerByte_eq[OF this, of "drop (length s - length sp) s"]
  show ?thesis by (simp add: HasSuffix_def drop_map)
qed

lemma length_TrimLeftSpace: "length (TrimLeftSpace s) \<le> length s"
proof (induction s rule: TrimLeftSpace.induct)
  case (1 s)
  show ?case
  proof (cases "find (HasPrefix s) whiteSpace")
    case None
    then show ?thesis by (subst TrimLeftSpace.simps) simp
  next
    case (Some sp)
    with 1 have "length (TrimLeftSpace (drop (length sp) s)) \<le> length (drop (length sp) s)"
      by simp
    with Some show ?thesis by (subst TrimLeftSpace.simps) simp
  qed
qed

lemma length_TrimRightSpace: "length (TrimRightSpace s) \<le> length s"
proof (induction s rule: TrimRightSpace.induct)
  case (1 s)
  show ?case
  proof (cases "find (HasSuffix s) whiteSpace")
    case None
    then show ?thesis by (subst TrimRightSpace.simps) simp
  next
    case (Some sp)
    with 1 have "length (TrimRightSpace (take (length s - length sp) s))
        \<le> length (take (length s - length sp) s)"
      by simp
    with Some show ?thesis by (subst TrimRightSpace.simps) simp
  qed
qed

lemma TrimLeftSpace_fix:
  "TrimLeftSpace s = s \<longleftrightarrow> find (HasPrefix s) whiteSpace = None"
proof (cases "find (HasPrefix s) whiteSpace")
  case None
  then show ?thesis by (subst TrimLeftSpace.simps) simp
next
  case (Some sp)
  then have "sp \<in> set whiteSpace" "HasPrefix s sp"
    unfolding find_Some_iff by (metis nth_mem)+
  then have "sp \<noteq> []" "length sp \<le> length s"
    by (simp_all add: whiteSpace_nonempty HasPrefix_length)
  then have "length (drop (length sp) s) < length s" by (cases sp) auto
  with length_TrimLeftSpace[of "drop (length sp) s"]
  have "length (TrimLeftSpace (drop (length sp) s)) < length s" by simp
  moreover have "TrimLeftSpace s = TrimLeftSpace (drop (length sp) s)"
    using Some by (subst TrimLeftSpace.simps) simp
  ultimately have "TrimLeftSpace s \<noteq> s" by auto
  with Some show ?thesis by simp
qed

lemma TrimRightSpace_fix:
  "TrimRightSpace s = s \<longleftrightarrow> find (HasSuffix s) whiteSpace = None"
proof (cases "find (HasSuffix s) whiteSpace")
  case None
  then show ?thesis by (subst TrimRightSpace.simps) simp
next
  case (Some sp)
  then have "sp \<in> set whiteSpace" "HasSuffix s sp"
    unfolding find_Some_iff by (metis nth_mem)+
  then have "sp \<noteq> []" "length sp \<le> length s"
    by (simp_all add: whiteSpace_nonempty HasSuffix_def)
  then have "length (take (length s - length sp) s) < length s" by (cases sp) auto
  with length_TrimRightSpace[of "take (length s - length sp) s"]
  have "length (TrimRightSpace (take (length s - length sp) s)) < length s" by simp
  moreover have "TrimRightSpace s = TrimRightSpace (take (length s - length sp) s)"
    using Some by (subst TrimRightSpace.simps) simp
  ultimately have "TrimRightSpace s \<noteq> s" by auto
  with Some show ?thesis by simp
qed

text \<open>
  A string is its own \<^verbatim>\<open>TrimSpace\<close> exactly when no white space character starts it and
  none ends it.
\<close>

lemma TrimSpace_fix:
  "TrimSpace s = s \<longleftrightarrow>
     find (HasPrefix s) whiteSpace = None \<and> find (HasSuffix s) whiteSpace = None"
proof
  assume a: "TrimSpace s = s"
  have "length s = length (TrimRightSpace (TrimLeftSpace s))"
    using a by (simp add: TrimSpace_def)
  also have "\<dots> \<le> length (TrimLeftSpace s)" by (rule length_TrimRightSpace)
  finally have "length (TrimLeftSpace s) = length s"
    using length_TrimLeftSpace[of s] by simp
  have l: "TrimLeftSpace s = s"
  proof (rule ccontr)
    assume n: "TrimLeftSpace s \<noteq> s"
    then obtain sp where sp: "find (HasPrefix s) whiteSpace = Some sp"
      using TrimLeftSpace_fix[of s] by auto
    then have "sp \<in> set whiteSpace" "HasPrefix s sp"
      unfolding find_Some_iff by (metis nth_mem)+
    then have "sp \<noteq> []" "length sp \<le> length s"
      by (simp_all add: whiteSpace_nonempty HasPrefix_length)
    then have "length (drop (length sp) s) < length s" by (cases sp) auto
    with length_TrimLeftSpace[of "drop (length sp) s"]
    have "length (TrimLeftSpace (drop (length sp) s)) < length s" by simp
    moreover have "TrimLeftSpace s = TrimLeftSpace (drop (length sp) s)"
      using sp by (subst TrimLeftSpace.simps) simp
    ultimately show False using \<open>length (TrimLeftSpace s) = length s\<close> by simp
  qed
  with a have "TrimRightSpace s = s" by (simp add: TrimSpace_def)
  with l show "find (HasPrefix s) whiteSpace = None \<and> find (HasSuffix s) whiteSpace = None"
    by (simp add: TrimLeftSpace_fix TrimRightSpace_fix)
next
  assume "find (HasPrefix s) whiteSpace = None \<and> find (HasSuffix s) whiteSpace = None"
  then have "TrimLeftSpace s = s" "TrimRightSpace s = s"
    by (simp_all only: TrimLeftSpace_fix TrimRightSpace_fix)
  then show "TrimSpace s = s" by (simp add: TrimSpace_def)
qed

lemma TrimSpace_lower_ascii:
  assumes "TrimSpace s = s"
  shows "TrimSpace (map lowerByte s) = map lowerByte s"
proof -
  have "find (HasPrefix (map lowerByte s)) whiteSpace = find (HasPrefix s) whiteSpace"
    by (rule find_cong) (simp_all add: HasPrefix_lower_space)
  moreover
  have "find (HasSuffix (map lowerByte s)) whiteSpace = find (HasSuffix s) whiteSpace"
    by (rule find_cong) (simp_all add: HasSuffix_lower_space)
  ultimately show ?thesis using assms by (simp only: TrimSpace_fix)
qed

text \<open>
  \<^verbatim>\<open>main\<close> passes to \<^verbatim>\<open>inScope\<close> the \<^verbatim>\<open>TrimSpace\<close> of a line of its input: a string that is
  its own \<^verbatim>\<open>TrimSpace\<close>.
\<close>

lemma HasPrefix_take: "HasPrefix (take n s) p \<Longrightarrow> HasPrefix s p"
proof -
  assume a: "HasPrefix (take n s) p"
  then have "length p \<le> length (take n s)" by (rule HasPrefix_length)
  then have "length p \<le> n" by simp
  then have "take (length p) (take n s) = take (length p) s" by (simp add: min_absorb1)
  with a show ?thesis by (simp add: HasPrefix_def)
qed

lemma TrimLeftSpace_trimmed: "find (HasPrefix (TrimLeftSpace s)) whiteSpace = None"
proof (induction s rule: TrimLeftSpace.induct)
  case (1 s)
  show ?case
  proof (cases "find (HasPrefix s) whiteSpace")
    case None
    then show ?thesis by (subst TrimLeftSpace.simps) simp
  next
    case (Some sp)
    with 1 show ?thesis by (subst TrimLeftSpace.simps) simp
  qed
qed

lemma TrimRightSpace_trimmed: "find (HasSuffix (TrimRightSpace s)) whiteSpace = None"
proof (induction s rule: TrimRightSpace.induct)
  case (1 s)
  show ?case
  proof (cases "find (HasSuffix s) whiteSpace")
    case None
    then show ?thesis by (subst TrimRightSpace.simps) simp
  next
    case (Some sp)
    with 1 show ?thesis by (subst TrimRightSpace.simps) simp
  qed
qed

lemma TrimRightSpace_keeps_left:
  "find (HasPrefix s) whiteSpace = None \<Longrightarrow> find (HasPrefix (TrimRightSpace s)) whiteSpace = None"
proof (induction s rule: TrimRightSpace.induct)
  case (1 s)
  show ?case
  proof (cases "find (HasSuffix s) whiteSpace")
    case None
    with 1 show ?thesis by (subst TrimRightSpace.simps) simp
  next
    case (Some sp)
    have "find (HasPrefix (take (length s - length sp) s)) whiteSpace = None"
      using "1.prems" unfolding find_None_iff by (blast dest: HasPrefix_take)
    with 1 Some show ?thesis by (subst TrimRightSpace.simps) simp
  qed
qed

lemma TrimSpace_idem: "TrimSpace (TrimSpace s) = TrimSpace s"
  unfolding TrimSpace_fix
  by (simp add: TrimSpace_def TrimRightSpace_trimmed TrimRightSpace_keeps_left
      TrimLeftSpace_trimmed)

lemma TrimSpace_examples:
  "TrimSpace ([CHR 0x09] @ '' example.com '' @ [CHR 0x0D]) = ''example.com''
   \<and> TrimSpace ([CHR 0xC2, CHR 0xA0] @ ''ws:'' @ [CHR 0xE3, CHR 0x80, CHR 0x80]) = ''ws:''
   \<and> TrimSpace ([CHR 0xA0] @ ''ws:'') = [CHR 0xA0] @ ''ws:''"
  by code_simp

lemma Contains_scheme_sep: "Contains s ''://'' \<Longrightarrow> Contains s ''/''"
proof -
  assume "Contains s ''://''"
  then obtain i where "take (length ''://'') (drop i s) = ''://''"
    unfolding Contains_def list_ex_iff HasPrefix_def by blast
  then have "CHR ''/'' \<in> set (take (length ''://'') (drop i s))" by simp
  then have "CHR ''/'' \<in> set s"
    by (meson in_set_dropD in_set_takeD)
  then show ?thesis by (simp add: Contains_single)
qed

lemma lowerKeeps_marks:
  assumes "lowerKeeps L s" and "c = CHR ''/'' \<or> c = CHR ''?'' \<or> c = CHR ''#''"
  shows "Contains (ToLower L s) [c] \<longleftrightarrow> Contains s [c]"
proof (cases "isASCII s")
  case True
  have "lowerByte x = c \<longleftrightarrow> x = c" for x
    using assms(2) by (intro lowerByte_nonletter) auto
  then have "c \<in> set (map lowerByte s) \<longleftrightarrow> c \<in> set s"
    unfolding set_map image_iff by metis
  with True show ?thesis by (simp add: ToLower_def Contains_single)
next
  case False
  with assms show ?thesis
    by (auto simp: ToLower_def Contains_single lowerKeeps_def)
qed

lemma lowerKeeps_trimmed:
  assumes "lowerKeeps L s" and "TrimSpace s = s"
  shows "TrimSpace (ToLower L s) = ToLower L s"
proof (cases "isASCII s")
  case True
  with assms(2) show ?thesis by (simp add: ToLower_def TrimSpace_lower_ascii)
next
  case False
  with assms show ?thesis by (simp add: ToLower_def lowerKeeps_def)
qed

lemma isURL_trimmed:
  assumes "TrimSpace s = s" and "lowerKeeps L s"
  shows "isURL L s \<longleftrightarrow>
     Contains s ''://''
     \<or> (\<exists>p \<in> set [''http:'', ''https:'', ''ftp:'', ''ws:'', ''wss:'']. HasPrefix (ToLower L s) p)
     \<or> Contains s ''/'' \<or> Contains s ''?'' \<or> Contains s ''#''"
proof -
  let ?t = "ToLower L s"
  have t: "TrimSpace ?t = ?t" using assms by (intro lowerKeeps_trimmed)
  have m: "Contains ?t ''/'' = Contains s ''/''" "Contains ?t ''?'' = Contains s ''?''"
    "Contains ?t ''#'' = Contains s ''#''"
    using assms(2) by (simp_all add: lowerKeeps_marks)
  have "isURL L s \<longleftrightarrow>
     Contains ?t ''://''
     \<or> (\<exists>p \<in> set [''http:'', ''https:'', ''ftp:'', ''ws:'', ''wss:'']. HasPrefix ?t p)
     \<or> Contains ?t ''/'' \<or> Contains ?t ''?'' \<or> Contains ?t ''#''"
    by (simp add: isURL_def Let_def t)
  also have "\<dots> \<longleftrightarrow>
     Contains s ''://''
     \<or> (\<exists>p \<in> set [''http:'', ''https:'', ''ftp:'', ''ws:'', ''wss:'']. HasPrefix ?t p)
     \<or> Contains s ''/'' \<or> Contains s ''?'' \<or> Contains s ''#''"
    unfolding m using Contains_scheme_sep[of ?t] Contains_scheme_sep[of s] m(1) by blast
  finally show ?thesis .
qed

text \<open>
  Claim C8. Let \<open>s\<close> be an input as \<^verbatim>\<open>main\<close> passes it to \<^verbatim>\<open>inScope\<close>, that is, with no
  white space at its ends. It is URL-like exactly when it contains \<^verbatim>\<open>://\<close>, or its
  lower-case form starts with one of \<^verbatim>\<open>http:\<close>, \<^verbatim>\<open>https:\<close>, \<^verbatim>\<open>ftp:\<close>, \<^verbatim>\<open>ws:\<close>, \<^verbatim>\<open>wss:\<close>, or it
  contains \<^verbatim>\<open>/\<close>, \<^verbatim>\<open>?\<close> or \<^verbatim>\<open>#\<close>. For an input with a byte beyond ASCII this rests on the
  facts \<open>lowerKeeps\<close> about the library's Unicode lower-casing; for an input of ASCII it
  rests on nothing. For every input, \<open>getHostname\<close> parses the input, with \<^verbatim>\<open>http://\<close>
  before it when it holds no \<^verbatim>\<open>://\<close>; it fails exactly when the parser fails or the
  hostname is empty, and otherwise returns the hostname, which \<open>inScope\<close> normalizes and
  matches on.
\<close>

theorem isURL_getHostname_spec:
  fixes L :: "('re, 'u) stdlib" and s :: string
  defines "url \<equiv> (if Contains s ''://'' then s else ''http://'' @ s)"
  shows
   "(TrimSpace s = s \<and> lowerKeeps L s \<longrightarrow>
       (isURL L s \<longleftrightarrow>
          Contains s ''://''
          \<or> (\<exists>p \<in> set [''http:'', ''https:'', ''ftp:'', ''ws:'', ''wss:''].
                HasPrefix (ToLower L s) p)
          \<or> Contains s ''/'' \<or> Contains s ''?'' \<or> Contains s ''#''))
    \<and> (TrimSpace s = s \<and> isASCII s \<longrightarrow> lowerKeeps L s \<and> ToLower L s = map lowerByte s)
    \<and> (isl (getHostname L s) \<longleftrightarrow>
         (case url_Parse L url of
            Inl err \<Rightarrow> True
          | Inr u \<Rightarrow> url_Hostname L u = []))
    \<and> (\<forall>h. getHostname L s = Inr h \<longleftrightarrow>
         (\<exists>u. url_Parse L url = Inr u \<and> url_Hostname L u = h \<and> h \<noteq> []))
    \<and> (\<forall>h. isURL L s \<and> getHostname L s = Inr h \<longrightarrow>
         normalizedDomain L config s = Some (normalizeDomain L h))"
proof (intro conjI impI allI)
  show "isURL L s \<longleftrightarrow>
          Contains s ''://''
          \<or> (\<exists>p \<in> set [''http:'', ''https:'', ''ftp:'', ''ws:'', ''wss:''].
                HasPrefix (ToLower L s) p)
          \<or> Contains s ''/'' \<or> Contains s ''?'' \<or> Contains s ''#''"
    if "TrimSpace s = s \<and> lowerKeeps L s"
    using that by (intro isURL_trimmed) simp_all
  show "lowerKeeps L s" if "TrimSpace s = s \<and> isASCII s"
    using that by (simp add: lowerKeeps_def)
  show "ToLower L s = map lowerByte s" if "TrimSpace s = s \<and> isASCII s"
    using that by (simp add: ToLower_def)
  show "isl (getHostname L s) \<longleftrightarrow>
         (case url_Parse L url of
            Inl err \<Rightarrow> True
          | Inr u \<Rightarrow> url_Hostname L u = [])"
    by (auto simp: getHostname_def url_def Let_def split: sum.splits)
  show "getHostname L s = Inr h \<longleftrightarrow>
         (\<exists>u. url_Parse L url = Inr u \<and> url_Hostname L u = h \<and> h \<noteq> [])" for h
    by (auto simp: getHostname_def url_def Let_def split: sum.splits)
  show "normalizedDomain L config s = Some (normalizeDomain L h)"
    if "isURL L s \<and> getHostname L s = Inr h" for h
    using that by (simp add: normalizedDomain_def)
qed

theorem isURL_getHostname_spec_witness:
  "isURL goLib ''HTTPS://Example.COM:8443/path''
   \<and> getHostname goLib ''HTTPS://Example.COM:8443/path'' = Inr ''Example.COM''
   \<and> normalizedDomain goLib lenientConfig ''HTTPS://Example.COM:8443/path''
       = Some ''example.com''
   \<and> isURL goLib ''Ws:example.com''
   \<and> isURL goLib ([CHR 0xC3, CHR 0x89] @ ''.com?q'')
   \<and> \<not> isURL goLib ([CHR 0xC3, CHR 0x89] @ ''.com'')
   \<and> \<not> isURL goLib ''example.com''
   \<and> isl (getHostname goLib ''/'')"
proof -
  note th = isURL_getHostname_spec[where L = goLib and config = lenientConfig]
  let ?s = "''HTTPS://Example.COM:8443/path''"
  have "TrimSpace ?s = ?s" "lowerKeeps goLib ?s" "Contains ?s ''://''" by code_simp+
  with th[of ?s] have a: "isURL goLib ?s" by blast
  have u: "url_Parse goLib ?s
     = Inr \<lparr>Scheme = ''https'', Opaque = [], Host = ''Example.COM:8443'', Path = ''/path'',
           RawQuery = [], Fragment = []\<rparr>" by code_simp
  have hn: "url_Hostname goLib \<lparr>Scheme = ''https'', Opaque = [], Host = ''Example.COM:8443'',
      Path = ''/path'', RawQuery = [], Fragment = []\<rparr> = ''Example.COM''" by code_simp
  have c: "Contains ?s ''://''" by code_simp
  from th[of ?s] u hn c
  have b: "getHostname goLib ?s = Inr ''Example.COM''"
    by simp
  have nd: "normalizeDomain goLib ''Example.COM'' = ''example.com''" by code_simp
  from th[of ?s] a b
  have d: "normalizedDomain goLib lenientConfig ?s = Some ''example.com''"
    unfolding nd[symmetric] by blast
  let ?w = "''Ws:example.com''"
  have "TrimSpace ?w = ?w" "lowerKeeps goLib ?w" "HasPrefix (ToLower goLib ?w) ''ws:''"
    by code_simp+
  with th[of ?w] have e: "isURL goLib ?w" by simp
  let ?q = "[CHR 0xC3, CHR 0x89] @ ''.com?q''"
  have "TrimSpace ?q = ?q" "lowerKeeps goLib ?q" "Contains ?q ''?''" by code_simp+
  with th[of ?q] have f: "isURL goLib ?q" by blast
  let ?e = "[CHR 0xC3, CHR 0x89] @ ''.com''"
  have "TrimSpace ?e = ?e" "lowerKeeps goLib ?e" by code_simp+
  moreover have "\<not> (Contains ?e ''://''
       \<or> (\<exists>p \<in> set [''http:'', ''https:'', ''ftp:'', ''ws:'', ''wss:''].
             HasPrefix (ToLower goLib ?e) p)
       \<or> Contains ?e ''/'' \<or> Contains ?e ''?'' \<or> Contains ?e ''#'')"
    by code_simp
  ultimately have g: "\<not> isURL goLib ?e" using th[of ?e] by blast
  let ?x = "''example.com''"
  have "TrimSpace ?x = ?x" "lowerKeeps goLib ?x" by code_simp+
  moreover have "\<not> (Contains ?x ''://''
       \<or> (\<exists>p \<in> set [''http:'', ''https:'', ''ftp:'', ''ws:'', ''wss:''].
             HasPrefix (ToLower goLib ?x) p)
       \<or> Contains ?x ''/'' \<or> Contains ?x ''?'' \<or> Contains ?x ''#'')"
    by code_simp
  ultimately have n: "\<not> isURL goLib ?x" using th[of ?x] by blast
  have "url_Parse goLib ''http:///'' = Inr \<lparr>Scheme = ''http'', Opaque = [], Host = [],
      Path = ''/'', RawQuery = [], Fragment = []\<rparr>" by code_simp
  moreover have "url_Hostname goLib \<lparr>Scheme = ''http'', Opaque = [], Host = [],
      Path = ''/'', RawQuery = [], Fragment = []\<rparr> = []" by code_simp
  moreover have "\<not> Contains ''/'' ''://''" by code_simp
  ultimately have i: "isl (getHostname goLib ''/'')"
    using th[of "''/''"] by simp
  from a b d e f g n i show ?thesis by blast
qed

end
